theory Spec2Isabelle
  imports Main "HOL-Library.AList" "HOL-Library.Sublist"
begin

section \<open>Strings and paths\<close>

text \<open>
  The JavaScript string operations the utilities use. \<open>split_on c s\<close> is
  \<^verbatim>\<open>s.split(c)\<close> for a one-character separator, \<open>join_with sep xs\<close> is
  \<^verbatim>\<open>xs.join(sep)\<close>, and \<open>replace_first pat rep s\<close> is \<^verbatim>\<open>s.replace(pat, rep)\<close> with a
  string pattern: only the first occurrence is replaced.
\<close>

fun split_on :: "char \<Rightarrow> string \<Rightarrow> string list" where
  "split_on c [] = [[]]"
| "split_on c (x # xs) =
     (if x = c then [] # split_on c xs
      else (case split_on c xs of [] \<Rightarrow> [[x]] | s # ss \<Rightarrow> (x # s) # ss))"

fun join_with :: "string \<Rightarrow> string list \<Rightarrow> string" where
  "join_with sep [] = []"
| "join_with sep [s] = s"
| "join_with sep (s # t # ts) = s @ sep @ join_with sep (t # ts)"

fun replace_first :: "string \<Rightarrow> string \<Rightarrow> string \<Rightarrow> string" where
  "replace_first pat rep [] = (if pat = [] then rep else [])"
| "replace_first pat rep (x # xs) =
     (if prefix pat (x # xs) then rep @ drop (length pat) (x # xs)
      else x # replace_first pat rep xs)"

text \<open>
  Node's POSIX \<^verbatim>\<open>path.normalize\<close> and \<^verbatim>\<open>path.join\<close> (\<^verbatim>\<open>path.sep\<close> is \<open>''/''\<close>).
  \<open>normalizeSegs\<close> is \<^verbatim>\<open>normalizeString\<close> read segment by segment: empty and
  \<open>''.''\<close> segments vanish, \<open>''..''\<close> removes the segment before it, or is
  kept when the path is relative and nothing is left to remove.
\<close>

definition isAbsolute :: "string \<Rightarrow> bool" where
  "isAbsolute p = (case p of [] \<Rightarrow> False | c # _ \<Rightarrow> c = CHR ''/'')"

fun normalizeSegs :: "bool \<Rightarrow> string list \<Rightarrow> string list \<Rightarrow> string list" where
  "normalizeSegs up res [] = res"
| "normalizeSegs up res (s # ss) =
     (if s = [] \<or> s = ''.'' then normalizeSegs up res ss
      else if s = ''..'' then
        (if res \<noteq> [] \<and> last res \<noteq> ''..'' then normalizeSegs up (butlast res) ss
         else if up then normalizeSegs up (res @ [''..'']) ss
         else normalizeSegs up res ss)
      else normalizeSegs up (res @ [s]) ss)"

definition normalize :: "string \<Rightarrow> string" where
  "normalize p =
     (if p = [] then ''.''
      else
        (let absolute = isAbsolute p;
             trailing = (last p = CHR ''/'');
             q = join_with ''/'' (normalizeSegs (\<not> absolute) [] (split_on CHR ''/'' p))
         in if q = [] then (if absolute then ''/'' else if trailing then ''./'' else ''.'')
            else (if absolute then ''/'' else []) @ q @ (if trailing then ''/'' else [])))"

definition path_join :: "string list \<Rightarrow> string" where
  "path_join args =
     (let joined = filter (\<lambda>a. a \<noteq> []) args
      in if joined = [] then ''.'' else normalize (join_with ''/'' joined))"

section \<open>The file system\<close>

text \<open>
  The file system is a finite table from resolved absolute paths (lists of segment
  names below the root) to nodes: regular files, directories and symbolic links. The
  root is always a directory. A path string is resolved against the working directory of
  the process, lexically. A symbolic link holds its target path, which is read from the
  directory of the link. Links are followed where the operating system follows them at
  the last component of a path; a path that runs through a linked directory is resolved
  lexically all the same. Permissions are not modelled.
\<close>

datatype node = File string | Dir | Link string

type_synonym filesystem = "(string list \<times> node) list"

datatype error =
  ENOENT | EISDIR | ENOTDIR | ENOTEMPTY | EEXIST | EBUSY | EINVAL | ELOOP | JsError string

definition node_at :: "filesystem \<Rightarrow> string list \<Rightarrow> node option" where
  "node_at t k = (if k = [] then Some Dir else map_of t k)"

definition resolveStep :: "string list \<Rightarrow> string \<Rightarrow> string list" where
  "resolveStep acc s =
     (if s = [] \<or> s = ''.'' then acc else if s = ''..'' then butlast acc else acc @ [s])"

definition resolve :: "string list \<Rightarrow> string \<Rightarrow> string list" where
  "resolve cw p = foldl resolveStep (if isAbsolute p then [] else cw) (split_on CHR ''/'' p)"

definition children :: "filesystem \<Rightarrow> string list \<Rightarrow> string list" where
  "children t k = map (\<lambda>e. last (fst e)) (filter (\<lambda>e. fst e \<noteq> [] \<and> butlast (fst e) = k) t)"

text \<open>
  \<open>follow n t k\<close> is the path at which a chain of at most \<open>n - 1\<close> links that starts at
  \<open>k\<close> ends: a path that holds no link (it may hold nothing at all, when the last link
  dangles). \<open>reach\<close> allows 40 links, as the operating system does; a longer chain
  is the error \<^verbatim>\<open>ELOOP\<close>.
\<close>

fun follow :: "nat \<Rightarrow> filesystem \<Rightarrow> string list \<Rightarrow> string list option" where
  "follow 0 t k = None"
| "follow (Suc n) t k =
     (case node_at t k of
        Some (Link target) \<Rightarrow> follow n t (resolve (butlast k) target)
      | _ \<Rightarrow> Some k)"

definition reach :: "filesystem \<Rightarrow> string list \<Rightarrow> string list option" where
  "reach t k = follow 41 t k"

text \<open>
  \<^verbatim>\<open>fs.existsSync\<close>, \<^verbatim>\<open>readFile\<close>, \<^verbatim>\<open>writeFile\<close> and \<^verbatim>\<open>fs.readdirSync\<close> follow a link at the
  end of the path: a dangling link does not exist, and a write through it makes the
  file it points to. \<^verbatim>\<open>fs.unlinkSync\<close> and \<^verbatim>\<open>fs.rmdirSync\<close> do not follow it: unlinking
  a link removes the link.
\<close>

definition existsSync :: "string list \<Rightarrow> filesystem \<Rightarrow> string \<Rightarrow> bool" where
  "existsSync cw t p =
     (case reach t (resolve cw p) of
        None \<Rightarrow> False
      | Some k \<Rightarrow> node_at t k \<noteq> None)"

definition readFile :: "string list \<Rightarrow> filesystem \<Rightarrow> string \<Rightarrow> error + string" where
  "readFile cw t p =
     (case reach t (resolve cw p) of
        None \<Rightarrow> Inl ELOOP
      | Some k \<Rightarrow>
          (case node_at t k of
             None \<Rightarrow> Inl ENOENT
           | Some Dir \<Rightarrow> Inl EISDIR
           | Some (Link _) \<Rightarrow> Inl ELOOP
           | Some (File c) \<Rightarrow> Inr c))"

definition writeFile :: "string list \<Rightarrow> filesystem \<Rightarrow> string \<Rightarrow> string \<Rightarrow> error + filesystem" where
  "writeFile cw t p c =
     (case reach t (resolve cw p) of
        None \<Rightarrow> Inl ELOOP
      | Some k \<Rightarrow>
          (case node_at t k of
             Some Dir \<Rightarrow> Inl EISDIR
           | Some (Link _) \<Rightarrow> Inl ELOOP
           | Some (File _) \<Rightarrow> Inr (AList.update k (File c) t)
           | None \<Rightarrow>
               (case node_at t (butlast k) of
                  Some Dir \<Rightarrow> Inr (AList.update k (File c) t)
                | Some (File _) \<Rightarrow> Inl ENOTDIR
                | Some (Link _) \<Rightarrow> Inl ENOTDIR
                | None \<Rightarrow> Inl ENOENT)))"

definition unlinkSync :: "string list \<Rightarrow> filesystem \<Rightarrow> string \<Rightarrow> error + filesystem" where
  "unlinkSync cw t p =
     (let k = resolve cw p in
      case node_at t k of
        None \<Rightarrow> Inl ENOENT
      | Some Dir \<Rightarrow> Inl EISDIR
      | Some (File _) \<Rightarrow> Inr (AList.delete k t)
      | Some (Link _) \<Rightarrow> Inr (AList.delete k t))"

definition readdirSync :: "string list \<Rightarrow> filesystem \<Rightarrow> string \<Rightarrow> error + string list" where
  "readdirSync cw t p =
     (case reach t (resolve cw p) of
        None \<Rightarrow> Inl ELOOP
      | Some k \<Rightarrow>
          (case node_at t k of
             None \<Rightarrow> Inl ENOENT
           | Some (File _) \<Rightarrow> Inl ENOTDIR
           | Some (Link _) \<Rightarrow> Inl ELOOP
           | Some Dir \<Rightarrow> Inr (children t k)))"

text \<open>
  \<^verbatim>\<open>fs.rmdirSync\<close> refuses a path whose last name is \<open>''.''\<close> (\<^verbatim>\<open>EINVAL\<close>) or \<open>''..''\<close>
  (\<^verbatim>\<open>ENOTEMPTY\<close>), whatever the directory holds; \<open>lastName\<close> is the last name of a path,
  trailing separators apart.
\<close>

definition lastName :: "string \<Rightarrow> string" where
  "lastName p =
     (let names = filter (\<lambda>s. s \<noteq> []) (split_on CHR ''/'' p)
      in if names = [] then [] else last names)"

definition rmdirSync :: "string list \<Rightarrow> filesystem \<Rightarrow> string \<Rightarrow> error + filesystem" where
  "rmdirSync cw t p =
     (let k = resolve cw p in
      case node_at t k of
        None \<Rightarrow> Inl ENOENT
      | Some (File _) \<Rightarrow> Inl ENOTDIR
      | Some (Link _) \<Rightarrow> Inl ENOTDIR
      | Some Dir \<Rightarrow>
          if lastName p = ''.'' then Inl EINVAL
          else if lastName p = ''..'' then Inl ENOTEMPTY
          else if k = [] then Inl EBUSY
          else if children t k = [] then Inr (AList.delete k t)
          else Inl ENOTEMPTY)"

text \<open>
  \<^verbatim>\<open>mkdirp\<close>: every missing directory on the way to the path is created; the result
  is the first directory that had to be made, or nothing (\<^verbatim>\<open>undefined\<close>) when the path
  was a directory already. A directory on the way may be a link to a directory; anything
  else in the way is an error.
\<close>

definition ancestors :: "string list \<Rightarrow> string list list" where
  "ancestors k = map (\<lambda>i. take i k) [1 ..< Suc (length k)]"

definition isFileNode :: "node option \<Rightarrow> bool" where
  "isFileNode n = (case n of Some (File _) \<Rightarrow> True | _ \<Rightarrow> False)"

definition isDirectory :: "filesystem \<Rightarrow> string list \<Rightarrow> bool" where
  "isDirectory t k =
     (case reach t k of
        None \<Rightarrow> False
      | Some k' \<Rightarrow> node_at t k' = Some Dir)"

definition inTheWay :: "filesystem \<Rightarrow> string list \<Rightarrow> bool" where
  "inTheWay t k = (node_at t k \<noteq> None \<and> \<not> isDirectory t k)"

definition mkdirp :: "string list \<Rightarrow> filesystem \<Rightarrow> string \<Rightarrow> error + (string list option \<times> filesystem)" where
  "mkdirp cw t p =
     (let k = resolve cw p in
      if inTheWay t k then Inl EEXIST
      else if list_ex (inTheWay t) (ancestors k) then Inl ENOTDIR
      else
        (let missing = filter (\<lambda>q. node_at t q = None) (ancestors k)
         in Inr (case missing of [] \<Rightarrow> None | m # _ \<Rightarrow> Some m,
                 foldl (\<lambda>f q. AList.update q Dir f) t missing)))"

section \<open>The process state\<close>

text \<open>
  What the utilities read and change: the file system, the working directory of the
  process, the two module-level arrays \<^verbatim>\<open>filesWritten\<close> and \<^verbatim>\<open>dirsWritten\<close>, and what
  the user is shown: the prompts asked (by file path), the diffs displayed (new content,
  old content), the chunks written to standard output, and the paths read through
  \<^verbatim>\<open>readFile\<close> by the template-based reconciler.
\<close>

record world =
  fs :: filesystem
  cwd :: "string list"
  filesWritten :: "string list"
  dirsWritten :: "string list"
  prompts :: "string list"
  diffs :: "(string \<times> string) list"
  stdout :: "string list"
  reads :: "string list"

text \<open>
  A call returns a value, throws (a rejected promise), ends the process
  (\<^verbatim>\<open>fatal\<close> calls \<^verbatim>\<open>process.exit\<close>), or waits for an answer that never comes.
  The three results of \<^verbatim>\<open>confirmWriteFile\<close> are \<^verbatim>\<open>true\<close>, \<^verbatim>\<open>false\<close> and \<^verbatim>\<open>undefined\<close>. The
  options are those the utilities read; \<^verbatim>\<open>options.directory\<close> is taken to be a string
  (\<^verbatim>\<open>path.join\<close> rejects anything else). What \<^verbatim>\<open>debug\<close> prints when \<^verbatim>\<open>DNA_DEBUG\<close> is set
  is left out.
\<close>

datatype 'a outcome = Returned 'a | Threw error | Exited | Pending

datatype jsval = JTrue | JFalse | JUndefined

datatype answer = Yes | No | ShowDiff

record options =
  update :: bool
  force :: bool
  dontPrune :: bool
  directory :: string

section \<open>confirmWriteFile, mkdir and cleanupWrittenFiles of the utilities\<close>

text \<open>
  The tail of \<^verbatim>\<open>confirmWriteFile\<close>: when \<^verbatim>\<open>doWrite\<close> holds, the path is pushed on
  \<^verbatim>\<open>filesWritten\<close> if pruning is on and the file does not exist, then the file is written
  and the call returns \<^verbatim>\<open>true\<close>; a failed write is fatal. Otherwise the function body
  ends without a return statement.
\<close>

definition finishWrite :: "options \<Rightarrow> string \<Rightarrow> string \<Rightarrow> bool \<Rightarrow> world \<Rightarrow> jsval outcome \<times> world" where
  "finishWrite opts fullPath content doWrite w =
     (if doWrite then
        (let w1 = (if \<not> dontPrune opts \<and> \<not> existsSync (cwd w) (fs w) fullPath
                   then w\<lparr>filesWritten := filesWritten w @ [fullPath]\<rparr> else w)
         in case writeFile (cwd w1) (fs w1) fullPath content of
              Inl e \<Rightarrow> (Exited, w1)
            | Inr t \<Rightarrow> (Returned JTrue, w1\<lparr>fs := t\<rparr>))
      else (Returned JUndefined, w))"

text \<open>
  The answers the user will give to the prompts are an input, consumed one per prompt.
  A show-diff answer prints the diff and calls \<^verbatim>\<open>confirmWriteFile\<close> again; the result of
  that inner call is awaited and dropped.
\<close>

fun confirmWriteFile ::
  "options \<Rightarrow> string \<Rightarrow> string \<Rightarrow> answer list \<Rightarrow> world \<Rightarrow> jsval outcome \<times> answer list \<times> world" where
  "confirmWriteFile opts filePath content ans w =
     (let fullPath = path_join [directory opts, filePath];
          exists = existsSync (cwd w) (fs w) fullPath
      in if \<not> update opts \<and> exists then (Returned JFalse, ans, w)
         else if exists \<and> update opts \<and> \<not> force opts then
           (case readFile (cwd w) (fs w) fullPath of
              Inl e \<Rightarrow> (Threw e, ans, w)
            | Inr existingData \<Rightarrow>
                if content = existingData then (Returned JFalse, ans, w)
                else
                  (case ans of
                     [] \<Rightarrow> (Pending, [], w\<lparr>prompts := prompts w @ [filePath]\<rparr>)
                   | a # rest \<Rightarrow>
                       (let w1 = w\<lparr>prompts := prompts w @ [filePath]\<rparr> in
                        case a of
                          Yes \<Rightarrow>
                            (case finishWrite opts fullPath content True w1 of
                               (r, w2) \<Rightarrow> (r, rest, w2))
                        | No \<Rightarrow>
                            (case finishWrite opts fullPath content False w1 of
                               (r, w2) \<Rightarrow> (r, rest, w2))
                        | ShowDiff \<Rightarrow>
                            (case confirmWriteFile opts filePath content rest
                                    (w1\<lparr>diffs := diffs w1 @ [(content, existingData)]\<rparr>) of
                               (Returned _, rest', w2) \<Rightarrow>
                                 (case finishWrite opts fullPath content False w2 of
                                    (r, w3) \<Rightarrow> (r, rest', w3))
                             | (r, rest', w2) \<Rightarrow> (r, rest', w2)))))
         else
           (case finishWrite opts fullPath content (force opts \<or> \<not> exists) w of
              (r, w2) \<Rightarrow> (r, ans, w2)))"

declare confirmWriteFile.simps [simp del]

text \<open>
  \<^verbatim>\<open>mkdir\<close>: when \<^verbatim>\<open>mkdirp\<close> reports that it made something, one entry is pushed
  on \<^verbatim>\<open>dirsWritten\<close> for every non-empty prefix of \<^verbatim>\<open>dirParts\<close>, the longest first;
  \<^verbatim>\<open>dirParts\<close> is the requested path, without its first \<open>''./''\<close>, split at the separators.
\<close>

fun pushDirs :: "string \<Rightarrow> string list \<Rightarrow> nat \<Rightarrow> string list" where
  "pushDirs d dirParts 0 = []"
| "pushDirs d dirParts (Suc j) =
     path_join [d, join_with ''/'' (take (Suc j) dirParts)] # pushDirs d dirParts j"

definition mkdir :: "options \<Rightarrow> string \<Rightarrow> world \<Rightarrow> string list option outcome \<times> world" where
  "mkdir opts filePath w =
     (let fullPath = path_join [directory opts, filePath] in
      case mkdirp (cwd w) (fs w) fullPath of
        Inl e \<Rightarrow> (Threw e, w)
      | Inr (created, t) \<Rightarrow>
          (if created \<noteq> None then
             (let dirParts = split_on CHR ''/'' (replace_first ''./'' [] filePath)
              in (Returned created,
                  w\<lparr>fs := t,
                    dirsWritten := dirsWritten w @ pushDirs (directory opts) dirParts (length dirParts)\<rparr>))
           else (Returned created, w\<lparr>fs := t\<rparr>)))"

text \<open>
  \<^verbatim>\<open>cleanupWrittenFiles\<close>. The first loop unlinks every path of \<^verbatim>\<open>filesWritten\<close>; an
  exception of \<^verbatim>\<open>unlinkSync\<close> is not caught. \<open>dedupFirst\<close> is the filter
  \<^verbatim>\<open>s.indexOf(v) === i\<close>, which keeps the first occurrence of every path.
\<close>

fun unlinkAll :: "string list \<Rightarrow> string list \<Rightarrow> filesystem \<Rightarrow> error option \<times> filesystem" where
  "unlinkAll cw [] t = (None, t)"
| "unlinkAll cw (f # files) t =
     (case unlinkSync cw t f of
        Inl e \<Rightarrow> (Some e, t)
      | Inr t' \<Rightarrow> unlinkAll cw files t')"

fun indexOf :: "string list \<Rightarrow> string \<Rightarrow> int" where
  "indexOf [] v = - 1"
| "indexOf (x # xs) v =
     (if x = v then 0 else (let r = indexOf xs v in if r < 0 then - 1 else r + 1))"

definition dedupFirst :: "string list \<Rightarrow> string list" where
  "dedupFirst s = map fst (filter (\<lambda>e. indexOf s (fst e) = int (snd e)) (zip s [0 ..< length s]))"

text \<open>
  One round of the inner loop, for the path \<open>dirPart\<close>: an empty path is skipped, a
  directory that exists and has no entry is removed, anything else ends the loop.
  \<^verbatim>\<open>readdirSync\<close> and \<^verbatim>\<open>rmdirSync\<close> may throw.
\<close>

datatype step = Removed filesystem | Skip | Break | Raise error

definition chainStep :: "string list \<Rightarrow> filesystem \<Rightarrow> string \<Rightarrow> step" where
  "chainStep cw t dirPart =
     (if dirPart = [] then Skip
      else if existsSync cw t dirPart then
        (case readdirSync cw t dirPart of
           Inl e \<Rightarrow> Raise e
         | Inr entries \<Rightarrow>
             if length entries = 0 then
               (case rmdirSync cw t dirPart of Inl e \<Rightarrow> Raise e | Inr t' \<Rightarrow> Removed t')
             else Break)
      else Break)"

text \<open>
  The inner loop, from index \<open>i\<close> down to 0, and the outer loop over the directories
  to remove. Besides the file system they give back the paths handed to \<^verbatim>\<open>rmdirSync\<close>
  with success, in order.
\<close>

fun removeChain ::
  "string list \<Rightarrow> string list \<Rightarrow> nat \<Rightarrow> filesystem \<Rightarrow> error option \<times> string list \<times> filesystem" where
  "removeChain cw dirParts 0 t =
     (case chainStep cw t (join_with ''/'' (take 0 dirParts)) of
        Raise e \<Rightarrow> (Some e, [], t)
      | Break \<Rightarrow> (None, [], t)
      | Skip \<Rightarrow> (None, [], t)
      | Removed t' \<Rightarrow> (None, [join_with ''/'' (take 0 dirParts)], t'))"
| "removeChain cw dirParts (Suc j) t =
     (case chainStep cw t (join_with ''/'' (take (Suc j) dirParts)) of
        Raise e \<Rightarrow> (Some e, [], t)
      | Break \<Rightarrow> (None, [], t)
      | Skip \<Rightarrow> removeChain cw dirParts j t
      | Removed t' \<Rightarrow>
          (case removeChain cw dirParts j t' of
             (e, rs, t'') \<Rightarrow> (e, join_with ''/'' (take (Suc j) dirParts) # rs, t'')))"

fun removeDirs ::
  "string list \<Rightarrow> string list \<Rightarrow> filesystem \<Rightarrow> error option \<times> string list \<times> filesystem" where
  "removeDirs cw [] t = (None, [], t)"
| "removeDirs cw (dir # dirs) t =
     (let dirParts = split_on CHR ''/'' (replace_first ''./'' [] dir) in
      case removeChain cw dirParts (length dirParts) t of
        (Some e, rs, t') \<Rightarrow> (Some e, rs, t')
      | (None, rs, t') \<Rightarrow>
          (case removeDirs cw dirs t' of (e, rs', t'') \<Rightarrow> (e, rs @ rs', t'')))"

definition cleanupWrittenFiles :: "world \<Rightarrow> unit outcome \<times> string list \<times> world" where
  "cleanupWrittenFiles w =
     (case unlinkAll (cwd w) (filesWritten w) (fs w) of
        (Some e, t) \<Rightarrow> (Threw e, [], w\<lparr>fs := t\<rparr>)
      | (None, t) \<Rightarrow>
          (case removeDirs (cwd w) (dedupFirst (dirsWritten w)) t of
             (Some e, rs, t') \<Rightarrow> (Threw e, rs, w\<lparr>fs := t'\<rparr>)
           | (None, rs, t') \<Rightarrow> (Returned (), rs, w\<lparr>fs := t'\<rparr>)))"

text \<open>
  Replaying a list of removals: every path must name a directory with no entry at the
  moment it is removed.
\<close>

fun replayRemovals :: "string list \<Rightarrow> filesystem \<Rightarrow> string list \<Rightarrow> filesystem option" where
  "replayRemovals cw t [] = Some t"
| "replayRemovals cw t (d # ds) =
     (if readdirSync cw t d = Inr [] then
        (case rmdirSync cw t d of Inl e \<Rightarrow> None | Inr t' \<Rightarrow> replayRemovals cw t' ds)
      else None)"

text \<open>
  A run: the calls the orchestrator makes, in order, from empty arrays. The first call
  that does not return ends the run (the abort path, on which the cleanup is invoked).
\<close>

datatype call = ConfirmWriteFile options string string "answer list" | Mkdir options string

fun run :: "call list \<Rightarrow> world \<Rightarrow> world" where
  "run [] w = w"
| "run (ConfirmWriteFile opts filePath content ans # cs) w =
     (case confirmWriteFile opts filePath content ans w of
        (Returned r, rest, w') \<Rightarrow> run cs w'
      | (other, rest, w') \<Rightarrow> w')"
| "run (Mkdir opts filePath # cs) w =
     (case mkdir opts filePath w of
        (Returned r, w') \<Rightarrow> run cs w'
      | (other, w') \<Rightarrow> w')"

definition initial :: "filesystem \<Rightarrow> string list \<Rightarrow> world" where
  "initial t cw =
     \<lparr>fs = t, cwd = cw, filesWritten = [], dirsWritten = [], prompts = [], diffs = [],
      stdout = [], reads = []\<rparr>"

section \<open>The template-based confirmWriteFile of deployNodeApp\<close>

text \<open>
  Structured values, as \<^verbatim>\<open>yaml.safeLoad\<close> returns them and as the callers write the
  \<^verbatim>\<open>properties\<close> overlay. \<open>JArrAssigned xs ps\<close> stands for the array \<open>xs\<close> after the
  keys of the object \<open>ps\<close> were assigned to it (what the merge does when the template
  holds an array where the overlay holds an object); no loaded template contains it.
\<close>

datatype json =
    JNull
  | JUndef
  | JBool bool
  | JNum int
  | JStr string
  | JArr "json list"
  | JObj "(string \<times> json) list"
  | JArrAssigned "json list" "(string \<times> json) list"

text \<open>
  \<^verbatim>\<open>merge\<close> is \<^verbatim>\<open>lodash/merge\<close>, a dependency of the repository; the functions below
  follow its \<^verbatim>\<open>baseMerge\<close> and \<^verbatim>\<open>baseMergeDeep\<close> on these values. \<open>mergeValue ov s\<close> is
  the value a key receives when the destination holds \<open>ov\<close> there (\<open>None\<close>: no such key)
  and the source holds \<open>s\<close>: a source object is merged into a destination object, a
  source array is merged index by index into a destination array, an undefined source
  value leaves an existing destination value alone, and any other source value replaces
  the destination value. Objects are association lists, with distinct keys in every value
  that stands for a JavaScript object, in the order in which JavaScript lists the keys
  (the order \<^verbatim>\<open>safeDump\<close> prints): first the keys that are array indices (\<open>0\<close>, or digits
  without a leading zero, below \<open>2^32 - 1\<close>) in ascending order, then the other keys
  in the order of their creation. So \<open>assignValue\<close>, the assignment \<^verbatim>\<open>object[key] = value\<close>,
  keeps the position of an existing key, puts a new index key among the index keys, and
  puts any other new key last. Two corners of the library are left out: an object with a
  numeric \<^verbatim>\<open>length\<close> key counts as array-like there, and cyclic values are tracked on a
  stack.
\<close>

definition keyNumber :: "string \<Rightarrow> int" where
  "keyNumber k = foldl (\<lambda>n c. 10 * n + (of_char c - 48)) 0 k"

definition isIndexKey :: "string \<Rightarrow> bool" where
  "isIndexKey k \<longleftrightarrow>
     k \<noteq> [] \<and> list_all (\<lambda>c. c \<in> set ''0123456789'') k \<and>
     (k = ''0'' \<or> hd k \<noteq> CHR ''0'') \<and> keyNumber k < 4294967295"

fun insertKey :: "string \<Rightarrow> json \<Rightarrow> (string \<times> json) list \<Rightarrow> (string \<times> json) list" where
  "insertKey k v [] = [(k, v)]"
| "insertKey k v (e # es) =
     (if isIndexKey (fst e) \<and> keyNumber (fst e) < keyNumber k then e # insertKey k v es
      else (k, v) # e # es)"

definition assignValue :: "string \<Rightarrow> json \<Rightarrow> (string \<times> json) list \<Rightarrow> (string \<times> json) list" where
  "assignValue k v obj =
     (if map_of obj k \<noteq> None then AList.update k v obj
      else if isIndexKey k then insertKey k v obj
      else obj @ [(k, v)])"

fun mergeValue :: "json option \<Rightarrow> json \<Rightarrow> json"
  and baseMergeObj :: "(string \<times> json) list \<Rightarrow> (string \<times> json) list \<Rightarrow> (string \<times> json) list"
  and baseMergeArr :: "json list \<Rightarrow> json list \<Rightarrow> json list" where
  "mergeValue ov (JObj sp) =
     (case ov of
        Some (JObj dp) \<Rightarrow> JObj (baseMergeObj dp sp)
      | Some (JArr xs) \<Rightarrow> (if sp = [] then JArr xs else JArrAssigned xs sp)
      | _ \<Rightarrow> JObj (baseMergeObj [] sp))"
| "mergeValue ov (JArr ss) =
     (case ov of
        Some (JArr xs) \<Rightarrow> JArr (baseMergeArr xs ss)
      | _ \<Rightarrow> JArr (baseMergeArr [] ss))"
| "mergeValue ov JUndef = (case ov of Some v \<Rightarrow> v | None \<Rightarrow> JUndef)"
| "mergeValue ov JNull = JNull"
| "mergeValue ov (JBool b) = JBool b"
| "mergeValue ov (JNum n) = JNum n"
| "mergeValue ov (JStr s) = JStr s"
| "mergeValue ov (JArrAssigned xs ps) = JArrAssigned xs ps"
| "baseMergeObj obj [] = obj"
| "baseMergeObj obj (e # src) =
     baseMergeObj (assignValue (fst e) (mergeValue (map_of obj (fst e)) (snd e)) obj) src"
| "baseMergeArr xs [] = xs"
| "baseMergeArr [] (s # ss) = mergeValue None s # baseMergeArr [] ss"
| "baseMergeArr (x # xs) (s # ss) = mergeValue (Some x) s # baseMergeArr xs ss"

text \<open>
  \<^verbatim>\<open>merge(template, properties)\<close> changes the template in place; its result is not
  used. A template that is not an object or an array (a scalar document) is left as it is.
\<close>

definition merge :: "json \<Rightarrow> (string \<times> json) list \<Rightarrow> json" where
  "merge template properties =
     (case template of
        JObj dp \<Rightarrow> JObj (baseMergeObj dp properties)
      | JArr xs \<Rightarrow> (if properties = [] then JArr xs else JArrAssigned xs properties)
      | other \<Rightarrow> other)"

text \<open>
  The closure of \<^verbatim>\<open>deployNodeApp\<close>: its options, the directory of the module
  (\<^verbatim>\<open>__dirname\<close>) and the YAML library, which is taken as given.
\<close>

record dnaEnv =
  optOutput :: "string option"
  optConfirm :: bool
  optOverwrite :: bool
  dirname :: string
  safeLoad :: "string \<Rightarrow> error + json"
  safeDump :: "json \<Rightarrow> string"

record dnaArgs =
  argContent :: "string option"
  argTemplatePath :: "string option"
  argOutput :: "string option"
  argProperties :: "(string \<times> json) list option"

definition silence :: "dnaEnv \<Rightarrow> bool" where
  "silence env = (optOutput env = Some ''-'')"

definition truthy :: "string option \<Rightarrow> bool" where
  "truthy s = (case s of None \<Rightarrow> False | Some v \<Rightarrow> v \<noteq> [])"

definition orElse :: "string option \<Rightarrow> string option \<Rightarrow> string option" where
  "orElse a b = (if truthy a then a else b)"

definition newline :: string where
  "newline = [CHR 0x0A]"

definition cwdString :: "world \<Rightarrow> string" where
  "cwdString w = ''/'' @ join_with ''/'' (cwd w)"

definition logLine :: "dnaEnv \<Rightarrow> string \<Rightarrow> world \<Rightarrow> world" where
  "logLine env msg w = (if silence env then w else w\<lparr>stdout := stdout w @ [msg @ newline]\<rparr>)"

text \<open>
  The first block of the function: the template is read, and merged with the
  properties when it is a YAML file. The result is the variable \<^verbatim>\<open>template\<close>.
\<close>

definition loadTemplate :: "dnaEnv \<Rightarrow> dnaArgs \<Rightarrow> world \<Rightarrow> (error + string option) \<times> world" where
  "loadTemplate env a w =
     (case argTemplatePath a of
        None \<Rightarrow> (Inr None, w)
      | Some tp \<Rightarrow>
          if tp = [] then (Inr None, w)
          else
            (let full = path_join [dirname env, tp];
                 w1 = w\<lparr>reads := reads w @ [full]\<rparr>
             in case readFile (cwd w) (fs w) full of
                  Inl e \<Rightarrow> (Inl e, w1)
                | Inr text \<Rightarrow>
                    (case argProperties a of
                       None \<Rightarrow> (Inr (Some text), w1)
                     | Some props \<Rightarrow>
                         if suffix ''.yaml'' tp then
                           (case safeLoad env text of
                              Inl e \<Rightarrow> (Inl e, w1)
                            | Inr t \<Rightarrow> (Inr (Some (safeDump env (merge t props) @ newline)), w1))
                         else (Inr (Some text), w1))))"

text \<open>
  The last block: nothing to do when \<^verbatim>\<open>doWrite\<close> is off and the output is not \<open>''-''\<close>;
  otherwise the content goes to standard output (output \<open>''-''\<close>) or to the file.
\<close>

definition dnaFinish ::
  "dnaEnv \<Rightarrow> string \<Rightarrow> string \<Rightarrow> dnaArgs \<Rightarrow> string option \<Rightarrow> bool \<Rightarrow> world \<Rightarrow> jsval outcome \<times> world" where
  "dnaFinish env filePath fullPath a template doWrite w =
     (if \<not> doWrite \<and> argOutput a \<noteq> Some ''-'' then (Returned JFalse, w)
      else
        (case orElse (argContent a) template of
           Some c \<Rightarrow>
             if c = [] then
               (Threw (JsError ''Please provide one of content, templatePath for confirmWriteFile''), w)
             else
               (let msg = ''Successfully '' @ (if truthy (argContent a) then ''wrote'' else ''wrote from template'')
                          @ '' '' @ [CHR 0x22] @ filePath @ [CHR 0x22]
                in if argOutput a = Some ''-'' then
                     (Returned JTrue, logLine env msg (w\<lparr>stdout := stdout w @ [c @ newline]\<rparr>))
                   else
                     (case writeFile (cwd w) (fs w) fullPath c of
                        Inl e \<Rightarrow> (Exited, w)
                      | Inr t \<Rightarrow> (Returned JTrue, logLine env msg (w\<lparr>fs := t\<rparr>))))
         | None \<Rightarrow>
             (Threw (JsError ''Please provide one of content, templatePath for confirmWriteFile''), w)))"

fun dnaConfirmWriteFile ::
  "dnaEnv \<Rightarrow> string \<Rightarrow> dnaArgs \<Rightarrow> answer list \<Rightarrow> world \<Rightarrow> jsval outcome \<times> answer list \<times> world" where
  "dnaConfirmWriteFile env filePath a ans w =
     (let fullPath = path_join [cwdString w, filePath] in
      case loadTemplate env a w of
        (Inl e, w1) \<Rightarrow> (Threw e, ans, w1)
      | (Inr template, w1) \<Rightarrow>
          if truthy (argContent a) \<and> truthy (argTemplatePath a) then
            (Threw (JsError ''Provide only one of content, templatePath''), ans, w1)
          else
            (let w2 = w1\<lparr>reads := reads w1 @ [fullPath]\<rparr>;
                 existingContent =
                   (case readFile (cwd w2) (fs w2) fullPath of Inl e \<Rightarrow> None | Inr c \<Rightarrow> Some c);
                 desired = orElse (argContent a) template
             in if optOverwrite env then
                  (case dnaFinish env filePath fullPath a template True w2 of (r, w3) \<Rightarrow> (r, ans, w3))
                else if argOutput a \<noteq> Some ''-'' \<and> existingContent = desired then
                  (Returned JFalse, ans, w2)
                else if truthy existingContent \<and> \<not> optConfirm env \<and> \<not> silence env then
                  (case ans of
                     [] \<Rightarrow> (Pending, [], w2\<lparr>prompts := prompts w2 @ [filePath]\<rparr>)
                   | x # rest \<Rightarrow>
                       (let w3 = w2\<lparr>prompts := prompts w2 @ [filePath]\<rparr> in
                        case x of
                          Yes \<Rightarrow>
                            (case dnaFinish env filePath fullPath a template True w3 of
                               (r, w4) \<Rightarrow> (r, rest, w4))
                        | No \<Rightarrow>
                            (case dnaFinish env filePath fullPath a template False w3 of
                               (r, w4) \<Rightarrow> (r, rest, w4))
                        | ShowDiff \<Rightarrow>
                            (case (desired, readFile (cwd w3) (fs w3) fullPath) of
                               (Some c, Inr existing) \<Rightarrow>
                                 (case dnaConfirmWriteFile env filePath (a\<lparr>argOutput := None\<rparr>) rest
                                         (w3\<lparr>reads := reads w3 @ [fullPath],
                                             diffs := diffs w3 @ [(c, existing)]\<rparr>) of
                                    (Returned v, rest', w4) \<Rightarrow>
                                      (case dnaFinish env filePath fullPath a template False w4 of
                                         (r, w5) \<Rightarrow> (r, rest', w5))
                                  | (r, rest', w4) \<Rightarrow> (r, rest', w4))
                             | (None, Inr existing) \<Rightarrow>
                                 (Threw (JsError ''TypeError''), rest, w3\<lparr>reads := reads w3 @ [fullPath]\<rparr>)
                             | (d, Inl e) \<Rightarrow>
                                 (Threw e, rest, w3\<lparr>reads := reads w3 @ [fullPath]\<rparr>))))
                else if truthy existingContent \<and> optConfirm env then
                  (case dnaFinish env filePath fullPath a template False
                          (logLine env (''Refusing to overwrite '' @ [CHR 0x22] @ filePath @ [CHR 0x22]
                             @ ''... Continuing... (Use --overwrite to ignore this check)'') w2) of
                     (r, w3) \<Rightarrow> (r, ans, w3))
                else
                  (case dnaFinish env filePath fullPath a template (\<not> truthy existingContent) w2 of
                     (r, w3) \<Rightarrow> (r, ans, w3))))"

declare dnaConfirmWriteFile.simps [simp del]

text \<open>
  The older \<^verbatim>\<open>confirmWriteFile\<close> (\<^verbatim>\<open>DeployNodeApp2.js\<close>) takes a content or a file to
  copy. Only its last block is modelled, as a function of \<^verbatim>\<open>doWrite\<close>, which the
  overwrite option sets. The write and the copy are started and not awaited: a failure
  is not caught, and \<open>started\<close> keeps the file system as it was then.
\<close>

record olderArgs =
  oldPath :: string
  oldContent :: "string option"
  oldCopySource :: "string option"

definition copyFile :: "string list \<Rightarrow> filesystem \<Rightarrow> string \<Rightarrow> string \<Rightarrow> error + filesystem" where
  "copyFile cw t src dest =
     (case readFile cw t src of Inl e \<Rightarrow> Inl e | Inr c \<Rightarrow> writeFile cw t dest c)"

definition started :: "filesystem \<Rightarrow> error + filesystem \<Rightarrow> filesystem" where
  "started t r = (case r of Inl e \<Rightarrow> t | Inr t' \<Rightarrow> t')"

definition olderFinish :: "dnaEnv \<Rightarrow> olderArgs \<Rightarrow> bool \<Rightarrow> world \<Rightarrow> jsval outcome \<times> world" where
  "olderFinish env a doWrite w =
     (if \<not> doWrite then (Returned JFalse, w)
      else if truthy (oldContent a) \<or> truthy (oldCopySource a) then
        (let fullPath = cwdString w @ ''/'' @ oldPath a;
             msg = ''Successfully '' @ (if truthy (oldContent a) then ''wrote'' else ''wrote from template'')
                   @ '' '' @ [CHR 0x22] @ oldPath a @ [CHR 0x22];
             t = (case oldContent a of
                    Some c \<Rightarrow>
                      if c \<noteq> [] then started (fs w) (writeFile (cwd w) (fs w) fullPath c)
                      else (case oldCopySource a of
                              Some src \<Rightarrow>
                                started (fs w)
                                  (copyFile (cwd w) (fs w) (dirname env @ ''/'' @ src) (oldPath a))
                            | None \<Rightarrow> fs w)
                  | None \<Rightarrow>
                      (case oldCopySource a of
                         Some src \<Rightarrow>
                           started (fs w)
                             (copyFile (cwd w) (fs w) (dirname env @ ''/'' @ src) (oldPath a))
                       | None \<Rightarrow> fs w))
         in (Returned JTrue, logLine env msg (w\<lparr>fs := t\<rparr>)))
      else (Threw (JsError ''Please provide one of content, copySource for confirmWriteFile''), w))"

section \<open>Notions used to state the properties\<close>

text \<open>
  The paths the inner loop of \<^verbatim>\<open>cleanupWrittenFiles\<close> visits when it starts at index \<open>i\<close>:
  every prefix of the split path, the longest first, without the empty ones.
\<close>

definition chain :: "string list \<Rightarrow> nat \<Rightarrow> string list" where
  "chain dirParts i =
     filter (\<lambda>d. d \<noteq> []) (map (\<lambda>j. join_with ''/'' (take j dirParts)) (rev [0 ..< Suc i]))"

text \<open>
  The paths visited for a directory recorded as \<open>dir\<close>: the first \<open>''./''\<close> of the
  recorded path is deleted, wherever it stands, the rest is split at the separators, and
  the walk takes the prefixes of that list of segments.
\<close>

definition walk :: "string \<Rightarrow> string list" where
  "walk dir =
     chain (split_on CHR ''/'' (replace_first ''./'' [] dir))
           (length (split_on CHR ''/'' (replace_first ''./'' [] dir)))"

text \<open>
  \<open>noLinks t\<close>: the file system holds no symbolic link. The invariant of a run that
  started on such a file system \<open>t0\<close>: the working directory is fixed, every file and
  every directory of \<open>t0\<close> is still there, no path on \<^verbatim>\<open>filesWritten\<close> names a file of
  \<open>t0\<close>, and there is still no link.
\<close>

definition noLinks :: "filesystem \<Rightarrow> bool" where
  "noLinks t \<longleftrightarrow> (\<forall>k p. node_at t k \<noteq> Some (Link p))"

definition runInv :: "filesystem \<Rightarrow> string list \<Rightarrow> world \<Rightarrow> bool" where
  "runInv t0 cw w \<longleftrightarrow>
     cwd w = cw \<and>
     (\<forall>k. isFileNode (node_at t0 k) \<longrightarrow> isFileNode (node_at (fs w) k)) \<and>
     (\<forall>k. node_at t0 k = Some Dir \<longrightarrow> node_at (fs w) k = Some Dir) \<and>
     (\<forall>f \<in> set (filesWritten w). \<not> isFileNode (node_at t0 (resolve cw f))) \<and>
     noLinks (fs w)"

text \<open>
  \<open>holdsFile t d ns\<close>: in \<open>t\<close>, \<open>d\<close> is a directory, and the names \<open>ns\<close> lead from it,
  through directories, to a file. The way points of \<open>t\<close> are its files and the
  directories that hold one. \<open>guarded S t\<close>: every path of \<open>S\<close> is a file of \<open>t\<close> or has
  an entry that is in \<open>S\<close> as well; \<open>same S t t'\<close>: the nodes at the paths of \<open>S\<close> did not
  change from \<open>t\<close> to \<open>t'\<close>.
\<close>

fun holdsFile :: "filesystem \<Rightarrow> string list \<Rightarrow> string list \<Rightarrow> bool" where
  "holdsFile t d [] = False"
| "holdsFile t d (n # ns) =
     (node_at t d = Some Dir \<and>
      (if ns = [] then isFileNode (node_at t (d @ [n])) else holdsFile t (d @ [n]) ns))"

definition waypoints :: "filesystem \<Rightarrow> string list set" where
  "waypoints t = {k. isFileNode (node_at t k)} \<union> {d. \<exists>ns. holdsFile t d ns}"

definition guarded :: "string list set \<Rightarrow> filesystem \<Rightarrow> bool" where
  "guarded S t \<longleftrightarrow>
     (\<forall>k \<in> S. isFileNode (node_at t k) \<or> (\<exists>n. k @ [n] \<in> S \<and> node_at t (k @ [n]) \<noteq> None))"

definition same :: "string list set \<Rightarrow> filesystem \<Rightarrow> filesystem \<Rightarrow> bool" where
  "same S t t' \<longleftrightarrow> (\<forall>k \<in> S. node_at t' k = node_at t k)"


section \<open>Example inputs\<close>

text \<open>
  A project directory \<open>/p\<close> holding one file, with the process running inside it and
  the options of an interactive update; a project with a user file two levels down,
  and a run in it; a project in which the user keeps a symbolic link whose target is
  missing, and a run that writes to the path of the link; a run that makes three
  directories; an empty project at \<open>/home/u/proj\<close>, addressed by its absolute path or,
  from the directory \<open>/home/u/work\<close> beside it, by a relative one.
\<close>

definition demoFs :: filesystem where
  "demoFs = [([''p''], Dir), ([''p'', ''a.txt''], File ''old'')]"

definition demoWorld :: world where
  "demoWorld = initial demoFs [''p'']"

definition demoOpts :: options where
  "demoOpts = \<lparr>update = True, force = False, dontPrune = False, directory = ''.''\<rparr>"

definition nestedFs :: filesystem where
  "nestedFs =
     [([''p''], Dir), ([''p'', ''a.txt''], File ''old''), ([''p'', ''inf''], Dir),
      ([''p'', ''inf'', ''keep''], Dir), ([''p'', ''inf'', ''keep'', ''mine.yaml''], File ''user'')]"

definition nestedCalls :: "call list" where
  "nestedCalls =
     [Mkdir demoOpts ''inf/gen'',
      ConfirmWriteFile demoOpts ''inf/gen/x.yaml'' ''kind: Service'' [],
      ConfirmWriteFile demoOpts ''a.txt'' ''new'' [Yes]]"

definition linkedFs :: filesystem where
  "linkedFs =
     [([''p''], Dir), ([''p'', ''inf''], Dir), ([''p'', ''inf'', ''x.yaml''], Link ''../out.yaml'')]"

definition linkedCalls :: "call list" where
  "linkedCalls =
     [Mkdir demoOpts ''inf/gen'', ConfirmWriteFile demoOpts ''inf/x.yaml'' ''kind: Service'' []]"

definition ledgerCalls :: "call list" where
  "ledgerCalls = [Mkdir demoOpts ''inf/gen'', Mkdir demoOpts ''out'', Mkdir demoOpts ''inf/k8s'']"

definition rootedOpts :: options where
  "rootedOpts = \<lparr>update = True, force = False, dontPrune = False, directory = ''/home/u/proj''\<rparr>"

definition emptyProject :: filesystem where
  "emptyProject = [([''home''], Dir), ([''home'', ''u''], Dir), ([''home'', ''u'', ''proj''], Dir)]"

definition besideOpts :: options where
  "besideOpts = \<lparr>update = True, force = False, dontPrune = False, directory = ''../proj''\<rparr>"

definition besideFs :: filesystem where
  "besideFs = emptyProject @ [([''home'', ''u'', ''work''], Dir)]"

text \<open>
  An installation of the tool at \<open>/opt/dna\<close> with two templates, beside the project
  \<open>/p\<close>; a stand-in for the YAML library (a document with the one key \<open>kind\<close>); a call
  with literal content, and a call with a YAML template, properties and output \<open>''-''\<close>.
\<close>

definition installFs :: filesystem where
  "installFs =
     [([''opt''], Dir), ([''opt'', ''dna''], Dir),
      ([''opt'', ''dna'', ''Dockerfile''], File ''FROM alpine''),
      ([''opt'', ''dna'', ''svc.yaml''], File ''kind: x''),
      ([''p''], Dir)]"

definition stubEnv :: dnaEnv where
  "stubEnv = \<lparr>optOutput = None, optConfirm = False, optOverwrite = False, dirname = ''/opt/dna'',
              safeLoad = (\<lambda>s. Inr (JObj [(''kind'', JStr s)])),
              safeDump = (\<lambda>j. case j of JObj [(k, JStr v)] \<Rightarrow> k @ '': '' @ v | _ \<Rightarrow> [])\<rparr>"

definition fileArgs :: dnaArgs where
  "fileArgs = \<lparr>argContent = Some ''FROM node'', argTemplatePath = None, argOutput = None,
               argProperties = None\<rparr>"

definition yamlArgs :: dnaArgs where
  "yamlArgs = \<lparr>argContent = None, argTemplatePath = Some ''svc.yaml'', argOutput = Some ''-'',
               argProperties = Some [(''kind'', JStr ''Service'')]\<rparr>"

section \<open>Facts about the file system\<close>

lemma node_at_update:
  "k \<noteq> [] \<Longrightarrow> node_at (AList.update k v t) k' = (if k' = k then Some v else node_at t k')"
  by (simp add: node_at_def update_conv')

lemma node_at_delete:
  "node_at (AList.delete k t) k' = (if k' = k \<and> k \<noteq> [] then None else node_at t k')"
  by (auto simp: node_at_def delete_conv')

lemma node_at_file_nonroot: "node_at t k = Some (File c) \<Longrightarrow> k \<noteq> []"
  by (auto simp: node_at_def)

lemma follow_not_link: "follow n t k = Some k' \<Longrightarrow> node_at t k' \<noteq> Some (Link p)"
  by (induction n arbitrary: k) (auto split: option.splits node.splits)

lemma follow_plain: "\<forall>p. node_at t k \<noteq> Some (Link p) \<Longrightarrow> follow (Suc n) t k = Some k"
  by (auto split: option.splits node.splits)

lemma follow_update:
  assumes "follow n t k = Some k'" and "k' \<noteq> []" and "\<And>p. v \<noteq> Link p"
  shows "follow n (AList.update k' v t) k = Some k'"
  using assms(1)
proof (induction n arbitrary: k)
  case 0
  then show ?case by simp
next
  case (Suc n)
  show ?case
  proof (cases "\<exists>p. node_at t k = Some (Link p)")
    case True
    then obtain p where p: "node_at t k = Some (Link p)" by blast
    with Suc.prems have f: "follow n t (resolve (butlast k) p) = Some k'" by simp
    from Suc.prems have "node_at t k' \<noteq> Some (Link p)" by (rule follow_not_link)
    with p have "k \<noteq> k'" by auto
    then have "node_at (AList.update k' v t) k = Some (Link p)"
      using p assms(2) by (simp add: node_at_update)
    with Suc.IH [OF f] show ?thesis by simp
  next
    case False
    with Suc.prems have k: "k' = k" by (auto split: option.splits node.splits)
    have "node_at (AList.update k' v t) k = Some v" using k assms(2) by (simp add: node_at_update)
    with assms(3) k show ?thesis by (cases v) auto
  qed
qed


lemma readFile_Inr_iff:
  "readFile cw t p = Inr c \<longleftrightarrow> (\<exists>k. reach t (resolve cw p) = Some k \<and> node_at t k = Some (File c))"
  by (auto simp: readFile_def split: option.splits node.splits)

lemma readFile_existsSync: "readFile cw t p = Inr c \<Longrightarrow> existsSync cw t p"
  by (auto simp: readFile_Inr_iff existsSync_def)

lemma writeFile_Inr:
  "writeFile cw t p c = Inr t' \<Longrightarrow>
     \<exists>k. reach t (resolve cw p) = Some k \<and> t' = AList.update k (File c) t \<and> k \<noteq> [] \<and>
         (node_at t k = None \<or> isFileNode (node_at t k))"
proof -
  assume a: "writeFile cw t p c = Inr t'"
  then obtain k where r: "reach t (resolve cw p) = Some k"
    by (auto simp: writeFile_def split: option.splits)
  from a r have nd: "node_at t k \<noteq> Some Dir"
    by (auto simp: writeFile_def)
  then have nr: "k \<noteq> []" by (auto simp: node_at_def)
  from a r have "t' = AList.update k (File c) t \<and> (node_at t k = None \<or> isFileNode (node_at t k))"
    by (auto simp: writeFile_def isFileNode_def split: option.splits node.splits)
  with r nr show ?thesis by blast
qed

lemma writeFile_over_file:
  "readFile cw t p = Inr c0 \<Longrightarrow>
     \<exists>k. reach t (resolve cw p) = Some k \<and> node_at t k = Some (File c0) \<and>
         writeFile cw t p c = Inr (AList.update k (File c) t)"
  by (auto simp: readFile_Inr_iff writeFile_def)

lemma readFile_after_write: "writeFile cw t p c = Inr t' \<Longrightarrow> readFile cw t' p = Inr c"
proof -
  assume "writeFile cw t p c = Inr t'"
  then obtain k where r: "reach t (resolve cw p) = Some k" and t': "t' = AList.update k (File c) t"
    and nr: "k \<noteq> []"
    by (auto dest: writeFile_Inr)
  from r nr have "reach t' (resolve cw p) = Some k"
    unfolding reach_def t' by (rule follow_update) simp
  moreover have "node_at t' k = Some (File c)" using nr by (simp add: t' node_at_update)
  ultimately show ?thesis by (auto simp: readFile_Inr_iff)
qed

lemma existsSync_after_write: "writeFile cw t p c = Inr t' \<Longrightarrow> existsSync cw t' p"
  by (auto dest: readFile_after_write readFile_existsSync)

section \<open>Reconciliation by the utilities' confirmWriteFile\<close>

lemma confirm_equal_skips:
  assumes "\<not> force opts"
    and "readFile (cwd w) (fs w) (path_join [directory opts, filePath]) = Inr content"
  shows "confirmWriteFile opts filePath content ans w = (Returned JFalse, ans, w)"
  using assms readFile_existsSync [OF assms(2)]
  by (simp add: confirmWriteFile.simps Let_def)

lemma confirm_noupdate_exists:
  assumes "\<not> update opts"
    and "existsSync (cwd w) (fs w) (path_join [directory opts, filePath])"
  shows "confirmWriteFile opts filePath content ans w = (Returned JFalse, ans, w)"
  using assms by (simp add: confirmWriteFile.simps Let_def)

lemma confirm_first_noupdate:
  assumes "\<not> update opts"
    and "confirmWriteFile opts filePath content ans w = (Returned r, ans', w')"
  shows "cwd w' = cwd w \<and> existsSync (cwd w') (fs w') (path_join [directory opts, filePath])"
  using assms
  by (auto simp: confirmWriteFile.simps finishWrite_def Let_def existsSync_after_write
           split: if_splits sum.splits)

lemma confirm_first_written:
  assumes "update opts" and "\<not> force opts"
    and "confirmWriteFile opts filePath content ans w = (Returned r, ans', w')"
    and "r \<noteq> JUndefined"
  shows "readFile (cwd w') (fs w') (path_join [directory opts, filePath]) = Inr content"
  using assms
  by (auto simp: confirmWriteFile.simps [of opts filePath content ans w] finishWrite_def Let_def
                 readFile_after_write
           split: if_splits sum.splits list.splits answer.splits prod.splits outcome.splits)

text \<open>
  C10. When the user answers show-diff and then accepts, the inner call writes the file
  and returns \<^verbatim>\<open>true\<close>, but the outer call returns \<^verbatim>\<open>undefined\<close>: the inner result is
  dropped and the outer \<^verbatim>\<open>doWrite\<close> is still false. The file is not added to
  \<^verbatim>\<open>filesWritten\<close>, and the prompt was shown twice.
\<close>

theorem showdiff_then_accept_returns_undefined:
  assumes upd: "update opts" and nf: "\<not> force opts"
    and rd: "readFile (cwd w) (fs w) (path_join [directory opts, filePath]) = Inr existingData"
    and ne: "content \<noteq> existingData"
  shows "\<exists>w1 w'.
      w1 = w\<lparr>prompts := prompts w @ [filePath], diffs := diffs w @ [(content, existingData)]\<rparr> \<and>
      confirmWriteFile opts filePath content (Yes # rest) w1 = (Returned JTrue, rest, w') \<and>
      confirmWriteFile opts filePath content (ShowDiff # Yes # rest) w = (Returned JUndefined, rest, w') \<and>
      readFile (cwd w') (fs w') (path_join [directory opts, filePath]) = Inr content \<and>
      filesWritten w' = filesWritten w \<and>
      prompts w' = prompts w @ [filePath, filePath]"
proof -
  let ?p = "path_join [directory opts, filePath]"
  let ?w1 = "w\<lparr>prompts := prompts w @ [filePath], diffs := diffs w @ [(content, existingData)]\<rparr>"
  from rd obtain t where wr: "writeFile (cwd w) (fs w) ?p content = Inr t"
    by (auto dest: writeFile_over_file)
  let ?w' = "?w1\<lparr>prompts := prompts ?w1 @ [filePath], fs := t\<rparr>"
  have ex: "existsSync (cwd w) (fs w) ?p" using rd by (rule readFile_existsSync)
  have inner: "confirmWriteFile opts filePath content (Yes # rest) ?w1 = (Returned JTrue, rest, ?w')"
    using upd nf rd ne ex wr
    by (simp add: confirmWriteFile.simps [of _ _ _ "Yes # rest"] finishWrite_def)
  have outer: "confirmWriteFile opts filePath content (ShowDiff # Yes # rest) w
                 = (Returned JUndefined, rest, ?w')"
    using upd nf rd ne ex inner
    by (simp add: confirmWriteFile.simps [of _ _ _ "ShowDiff # Yes # rest"] finishWrite_def)
  have after: "readFile (cwd ?w') (fs ?w') ?p = Inr content"
    using wr by (simp add: readFile_after_write)
  show ?thesis
    using inner outer after by simp
qed

theorem showdiff_then_accept_witness:
  "update demoOpts \<and> \<not> force demoOpts \<and>
   readFile (cwd demoWorld) (fs demoWorld) (path_join [directory demoOpts, ''a.txt'']) = Inr ''old'' \<and>
   ''new'' \<noteq> ''old'' \<and>
   (\<exists>w'. confirmWriteFile demoOpts ''a.txt'' ''new'' [ShowDiff, Yes] demoWorld
            = (Returned JUndefined, [], w') \<and>
         readFile (cwd w') (fs w') (path_join [directory demoOpts, ''a.txt'']) = Inr ''new'')"
proof -
  have h1: "update demoOpts" and h2: "\<not> force demoOpts"
    by (simp_all add: demoOpts_def)
  have h3: "readFile (cwd demoWorld) (fs demoWorld) (path_join [directory demoOpts, ''a.txt''])
              = Inr ''old''"
    by code_simp
  have h4: "''new'' \<noteq> ''old''" by simp
  from showdiff_then_accept_returns_undefined [OF h1 h2 h3 h4, of "[]"]
  show ?thesis using h1 h2 h3 by blast
qed

text \<open>
  C2, as stated, fails twice. With \<^verbatim>\<open>force\<close> set and \<^verbatim>\<open>update\<close> unset, an existing file
  is left as it is and the call returns \<^verbatim>\<open>false\<close>. And with \<^verbatim>\<open>dontPrune\<close> set, a file that
  did not exist is written but not pushed on \<^verbatim>\<open>filesWritten\<close>.
\<close>

theorem force_without_update_counterexample:
  "confirmWriteFile (demoOpts\<lparr>update := False, force := True\<rparr>) ''a.txt'' ''new'' [] demoWorld
     = (Returned JFalse, [], demoWorld) \<and>
   readFile (cwd demoWorld) (fs demoWorld) ''a.txt'' = Inr ''old'' \<and>
   confirmWriteFile (demoOpts\<lparr>force := True, dontPrune := True\<rparr>) ''b.txt'' ''new'' [] demoWorld
     = (Returned JTrue, [], demoWorld\<lparr>fs := demoFs @ [([''p'', ''b.txt''], File ''new'')]\<rparr>) \<and>
   filesWritten (demoWorld\<lparr>fs := demoFs @ [([''p'', ''b.txt''], File ''new'')]\<rparr>) = []"
  by code_simp

text \<open>
  C2, amended. With \<^verbatim>\<open>force\<close> set, and \<^verbatim>\<open>update\<close> set or no file at the path, a call
  whose write succeeds returns \<^verbatim>\<open>true\<close> without asking, the file then holds the desired
  content, and \<^verbatim>\<open>filesWritten\<close> grows by exactly the path when the path did not exist and
  \<^verbatim>\<open>dontPrune\<close> is off, and not at all otherwise.
\<close>

theorem force_with_update_writes:
  assumes frc: "force opts"
    and upd: "update opts \<or> \<not> existsSync (cwd w) (fs w) (path_join [directory opts, filePath])"
    and wr: "writeFile (cwd w) (fs w) (path_join [directory opts, filePath]) content = Inr t"
  shows "confirmWriteFile opts filePath content ans w =
           (Returned JTrue, ans,
            w\<lparr>filesWritten := filesWritten w @
                 (if \<not> dontPrune opts \<and> \<not> existsSync (cwd w) (fs w) (path_join [directory opts, filePath])
                  then [path_join [directory opts, filePath]] else []),
              fs := t\<rparr>)
         \<and> readFile (cwd w) t (path_join [directory opts, filePath]) = Inr content"
proof -
  have rd: "readFile (cwd w) t (path_join [directory opts, filePath]) = Inr content"
    using wr by (rule readFile_after_write)
  have "confirmWriteFile opts filePath content ans w =
           (Returned JTrue, ans,
            w\<lparr>filesWritten := filesWritten w @
                 (if \<not> dontPrune opts \<and> \<not> existsSync (cwd w) (fs w) (path_join [directory opts, filePath])
                  then [path_join [directory opts, filePath]] else []),
              fs := t\<rparr>)"
    using frc upd wr by (auto simp: confirmWriteFile.simps finishWrite_def)
  with rd show ?thesis by simp
qed

theorem force_with_update_witness:
  "force (demoOpts\<lparr>force := True\<rparr>) \<and>
   (update (demoOpts\<lparr>force := True\<rparr>) \<or>
      \<not> existsSync (cwd demoWorld) (fs demoWorld) (path_join [directory (demoOpts\<lparr>force := True\<rparr>), ''b.txt''])) \<and>
   writeFile (cwd demoWorld) (fs demoWorld) (path_join [directory (demoOpts\<lparr>force := True\<rparr>), ''b.txt'']) ''new''
     = Inr (fs demoWorld @ [([''p'', ''b.txt''], File ''new'')]) \<and>
   confirmWriteFile (demoOpts\<lparr>force := True\<rparr>) ''b.txt'' ''new'' [] demoWorld
     = (Returned JTrue, [],
        demoWorld\<lparr>filesWritten := [''b.txt''], fs := fs demoWorld @ [([''p'', ''b.txt''], File ''new'')]\<rparr>)"
proof -
  let ?o = "demoOpts\<lparr>force := True\<rparr>"
  have h1: "force ?o" by simp
  have h2: "update ?o \<or> \<not> existsSync (cwd demoWorld) (fs demoWorld) (path_join [directory ?o, ''b.txt''])"
    by (simp add: demoOpts_def)
  have h3: "writeFile (cwd demoWorld) (fs demoWorld) (path_join [directory ?o, ''b.txt'']) ''new''
              = Inr (fs demoWorld @ [([''p'', ''b.txt''], File ''new'')])"
    by code_simp
  have h4: "\<not> dontPrune ?o \<and> \<not> existsSync (cwd demoWorld) (fs demoWorld) (path_join [directory ?o, ''b.txt''])"
    by code_simp
  have h5: "path_join [directory ?o, ''b.txt''] = ''b.txt''" by code_simp
  have h6: "filesWritten demoWorld = []" by code_simp
  from force_with_update_writes [OF h1 h2 h3, of "[]"] h4 h5 h6
  show ?thesis using h1 h2 h3 by simp
qed

text \<open>
  C5, as stated, fails: under the interactive policy a user who declines is asked again
  by the second call, although neither the file system nor the content has changed.
\<close>

theorem declined_then_asked_again_counterexample:
  "confirmWriteFile demoOpts ''a.txt'' ''new'' [No] demoWorld
     = (Returned JUndefined, [], demoWorld\<lparr>prompts := [''a.txt'']\<rparr>) \<and>
   confirmWriteFile demoOpts ''a.txt'' ''new'' [No] (demoWorld\<lparr>prompts := [''a.txt'']\<rparr>)
     = (Returned JUndefined, [], demoWorld\<lparr>prompts := [''a.txt'', ''a.txt'']\<rparr>)"
  by code_simp

text \<open>
  C5, amended. Without \<^verbatim>\<open>force\<close>, let a first call return. If \<^verbatim>\<open>update\<close> is off (the
  non-interactive policy), or the first call returned \<^verbatim>\<open>true\<close> or \<^verbatim>\<open>false\<close>, or the file
  now holds the desired content, then a second call for the same path and content
  returns \<^verbatim>\<open>false\<close> and changes nothing: no prompt, no write, no answer consumed. In
  particular a file that already holds the desired content is skipped this way.
\<close>

theorem second_reconcile_skips:
  assumes nf: "\<not> force opts"
    and first: "confirmWriteFile opts filePath content ans w = (Returned r, ans', w')"
    and ok: "\<not> update opts \<or> r \<noteq> JUndefined \<or>
             readFile (cwd w') (fs w') (path_join [directory opts, filePath]) = Inr content"
  shows "confirmWriteFile opts filePath content ans2 w' = (Returned JFalse, ans2, w')"
proof (cases "update opts")
  case False
  with first have "existsSync (cwd w') (fs w') (path_join [directory opts, filePath])"
    using confirm_first_noupdate by blast
  with False show ?thesis by (rule confirm_noupdate_exists)
next
  case True
  with ok have "r \<noteq> JUndefined \<or>
      readFile (cwd w') (fs w') (path_join [directory opts, filePath]) = Inr content" by simp
  then have "readFile (cwd w') (fs w') (path_join [directory opts, filePath]) = Inr content"
    using confirm_first_written [OF True nf first] by blast
  with nf show ?thesis by (rule confirm_equal_skips)
qed

theorem second_reconcile_witness:
  "\<not> force demoOpts \<and>
   confirmWriteFile demoOpts ''a.txt'' ''new'' [Yes] demoWorld
     = (Returned JTrue, [],
        demoWorld\<lparr>prompts := [''a.txt''], fs := [([''p''], Dir), ([''p'', ''a.txt''], File ''new'')]\<rparr>) \<and>
   JTrue \<noteq> JUndefined \<and>
   confirmWriteFile demoOpts ''a.txt'' ''new'' [Yes]
       (demoWorld\<lparr>prompts := [''a.txt''], fs := [([''p''], Dir), ([''p'', ''a.txt''], File ''new'')]\<rparr>)
     = (Returned JFalse, [Yes],
        demoWorld\<lparr>prompts := [''a.txt''], fs := [([''p''], Dir), ([''p'', ''a.txt''], File ''new'')]\<rparr>)"
proof -
  have h1: "\<not> force demoOpts" by (simp add: demoOpts_def)
  have h2: "confirmWriteFile demoOpts ''a.txt'' ''new'' [Yes] demoWorld
     = (Returned JTrue, [],
        demoWorld\<lparr>prompts := [''a.txt''], fs := [([''p''], Dir), ([''p'', ''a.txt''], File ''new'')]\<rparr>)"
    by code_simp
  have h3: "JTrue \<noteq> JUndefined" by simp
  from second_reconcile_skips [OF h1 h2, of "[Yes]"] h3
  show ?thesis using h1 h2 by simp
qed

section \<open>More facts about the file system\<close>

lemma isFileNode_simps [simp]:
  "isFileNode None = False" "isFileNode (Some Dir) = False" "isFileNode (Some (File c)) = True"
  "isFileNode (Some (Link p)) = False"
  by (simp_all add: isFileNode_def)

lemma isFileNode_iff: "isFileNode n \<longleftrightarrow> (\<exists>c. n = Some (File c))"
  by (auto simp: isFileNode_def split: option.splits node.splits)

lemma children_empty_none: "children t k = [] \<Longrightarrow> map_of t (k @ [n]) = None"
proof (rule ccontr)
  assume e: "children t k = []" and "map_of t (k @ [n]) \<noteq> None"
  then obtain v where "map_of t (k @ [n]) = Some v" by auto
  then have "(k @ [n], v) \<in> set t" by (rule map_of_SomeD)
  then have "(k @ [n], v) \<in> set (filter (\<lambda>e. fst e \<noteq> [] \<and> butlast (fst e) = k) t)" by simp
  with e show False by (simp add: children_def)
qed

lemma children_empty_node_at: "children t k = [] \<Longrightarrow> node_at t (k @ [n]) = None"
  by (simp add: node_at_def children_empty_none)

lemma rmdirSync_Inr:
  "rmdirSync cw t d = Inr t' \<Longrightarrow>
     resolve cw d \<noteq> [] \<and> node_at t (resolve cw d) = Some Dir \<and>
     children t (resolve cw d) = [] \<and> t' = AList.delete (resolve cw d) t \<and>
     lastName d \<noteq> ''.'' \<and> lastName d \<noteq> ''..''"
  by (simp add: rmdirSync_def Let_def split: if_splits option.splits node.splits)

lemma unlinkSync_Inr:
  "unlinkSync cw t f = Inr t' \<Longrightarrow>
     node_at t (resolve cw f) \<noteq> None \<and> node_at t (resolve cw f) \<noteq> Some Dir \<and>
     t' = AList.delete (resolve cw f) t"
  by (simp add: unlinkSync_def Let_def split: if_splits option.splits node.splits)

lemma reach_plain: "\<forall>p. node_at t k \<noteq> Some (Link p) \<Longrightarrow> reach t k = Some k"
proof -
  assume "\<forall>p. node_at t k \<noteq> Some (Link p)"
  then have "follow (Suc 40) t k = Some k" by (rule follow_plain)
  then show ?thesis by (simp add: reach_def)
qed

lemma existsSync_plain:
  "\<forall>p. node_at t (resolve cw f) \<noteq> Some (Link p) \<Longrightarrow> existsSync cw t f \<longleftrightarrow> node_at t (resolve cw f) \<noteq> None"
  by (simp add: existsSync_def reach_plain)

lemma readdirSync_existsSync: "readdirSync cw t d = Inr xs \<Longrightarrow> existsSync cw t d"
  by (auto simp: readdirSync_def existsSync_def split: option.splits node.splits)




lemma ancestors_nonempty: "q \<in> set (ancestors k) \<Longrightarrow> q \<noteq> []"
  by (auto simp: ancestors_def)

lemma foldl_update_dirs:
  "[] \<notin> set qs \<Longrightarrow>
     node_at (foldl (\<lambda>f q. AList.update q Dir f) t qs) k = (if k \<in> set qs then Some Dir else node_at t k)"
  by (induction qs arbitrary: t) (auto simp: node_at_update)

lemma mkdirp_Inr:
  assumes "mkdirp cw t p = Inr (created, t')"
  shows "node_at t' k = node_at t k \<or> (node_at t k = None \<and> node_at t' k = Some Dir)"
proof -
  let ?missing = "filter (\<lambda>q. node_at t q = None) (ancestors (resolve cw p))"
  from assms have t': "t' = foldl (\<lambda>f q. AList.update q Dir f) t ?missing"
    by (simp add: mkdirp_def Let_def split: if_splits)
  have "[] \<notin> set ?missing" by (auto dest: ancestors_nonempty)
  then have "node_at t' k = (if k \<in> set ?missing then Some Dir else node_at t k)"
    unfolding t' by (rule foldl_update_dirs)
  then show ?thesis by auto
qed

section \<open>The directory provisioner\<close>





section \<open>The rollback\<close>

lemma unlinkAll_nodes:
  "unlinkAll cw files t = (e, t') \<Longrightarrow>
     node_at t' k = node_at t k \<or>
     (k \<in> resolve cw ` set files \<and> node_at t k \<noteq> Some Dir \<and> node_at t' k = None)"
proof (induction files arbitrary: t)
  case Nil
  then show ?case by simp
next
  case (Cons f files)
  show ?case
  proof (cases "unlinkSync cw t f")
    case (Inl err)
    with Cons.prems show ?thesis by simp
  next
    case (Inr t1)
    with Cons.prems have rest: "unlinkAll cw files t1 = (e, t')" by simp
    from Inr have f: "node_at t (resolve cw f) \<noteq> Some Dir" and t1: "t1 = AList.delete (resolve cw f) t"
      by (auto dest: unlinkSync_Inr)
    from Cons.IH [OF rest] show ?thesis
      using f t1 by (auto simp: node_at_delete split: if_splits)
  qed
qed

lemma unlinkAll_append:
  "unlinkAll cw (xs @ ys) t =
     (case unlinkAll cw xs t of (Some e, t1) \<Rightarrow> (Some e, t1) | (None, t1) \<Rightarrow> unlinkAll cw ys t1)"
  by (induction xs arbitrary: t) (auto split: sum.splits)

lemma unlinkAll_all_files:
  "distinct (map (resolve cw) files) \<Longrightarrow>
   \<forall>f \<in> set files. isFileNode (node_at t (resolve cw f)) \<Longrightarrow>
   \<exists>t1. unlinkAll cw files t = (None, t1) \<and>
        (\<forall>k. node_at t1 k = (if k \<in> resolve cw ` set files then None else node_at t k))"
proof (induction files arbitrary: t)
  case Nil
  then show ?case by simp
next
  case (Cons f files)
  let ?k = "resolve cw f"
  from Cons.prems(2) obtain c where c: "node_at t ?k = Some (File c)"
    by (auto simp: isFileNode_iff)
  then have nr: "?k \<noteq> []" by (auto simp: node_at_def)
  have u: "unlinkSync cw t f = Inr (AList.delete ?k t)"
    using c by (simp add: unlinkSync_def)
  have d: "distinct (map (resolve cw) files)" and nk: "?k \<notin> resolve cw ` set files"
    using Cons.prems(1) by auto
  have "\<forall>g \<in> set files. isFileNode (node_at (AList.delete ?k t) (resolve cw g))"
    using Cons.prems(2) nk by (auto simp: node_at_delete image_iff)
  from Cons.IH [OF d this] obtain t1 where
    t1: "unlinkAll cw files (AList.delete ?k t) = (None, t1)"
    and n1: "\<forall>k. node_at t1 k = (if k \<in> resolve cw ` set files then None else node_at (AList.delete ?k t) k)"
    by blast
  have "unlinkAll cw (f # files) t = (None, t1)" using u t1 by simp
  moreover have "\<forall>k. node_at t1 k = (if k \<in> resolve cw ` set (f # files) then None else node_at t k)"
    using n1 nr by (auto simp: node_at_delete)
  ultimately show ?case by blast
qed

lemma same_refl: "same S t t"
  by (simp add: same_def)

lemma same_trans: "same S t t1 \<Longrightarrow> same S t1 t2 \<Longrightarrow> same S t t2"
  by (simp add: same_def)

lemma guarded_same: "guarded S t \<Longrightarrow> same S t t' \<Longrightarrow> guarded S t'"
  unfolding guarded_def same_def by metis

lemma rmdir_same:
  assumes g: "guarded S t" and rm: "rmdirSync cw t d = Inr t'"
  shows "same S t t'"
proof -
  let ?k = "resolve cw d"
  from rm have dir: "node_at t ?k = Some Dir" and emp: "children t ?k = []"
    and t': "t' = AList.delete ?k t"
    by (auto dest: rmdirSync_Inr)
  have "?k \<notin> S"
  proof
    assume "?k \<in> S"
    with g have "isFileNode (node_at t ?k) \<or> (\<exists>n. node_at t (?k @ [n]) \<noteq> None)"
      by (auto simp: guarded_def)
    with dir emp show False by (auto simp: children_empty_node_at)
  qed
  then show ?thesis by (auto simp: same_def t' node_at_delete)
qed

lemma chainStep_Removed:
  "chainStep cw t d = Removed t' \<Longrightarrow> d \<noteq> [] \<and> readdirSync cw t d = Inr [] \<and> rmdirSync cw t d = Inr t'"
  by (auto simp: chainStep_def split: if_splits sum.splits)

lemma chainStep_Skip: "chainStep cw t d = Skip \<longleftrightarrow> d = []"
  by (auto simp: chainStep_def split: sum.splits)

lemma chainStep_Break:
  "chainStep cw t d = Break \<Longrightarrow> d \<noteq> [] \<and> \<not> (existsSync cw t d \<and> readdirSync cw t d = Inr [])"
  by (auto simp: chainStep_def split: if_splits sum.splits)

lemma removeChain_same:
  "guarded S t \<Longrightarrow> removeChain cw parts i t = (e, rs, t') \<Longrightarrow> same S t t'"
proof (induction i arbitrary: t e rs t')
  case 0
  then show ?case
    by (auto split: step.splits dest!: chainStep_Removed intro: rmdir_same same_refl)
next
  case (Suc j)
  show ?case
  proof (cases "chainStep cw t (join_with ''/'' (take (Suc j) parts))")
    case (Removed t1)
    then have k1: "same S t t1" using Suc.prems(1) by (auto dest!: chainStep_Removed intro: rmdir_same)
    with Suc.prems(1) have g1: "guarded S t1" by (rule guarded_same)
    from Removed Suc.prems(2) obtain rs1 where "removeChain cw parts j t1 = (e, rs1, t')"
      by (auto split: prod.splits)
    from Suc.IH [OF g1 this] k1 show ?thesis by (blast intro: same_trans)
  next
    case Skip
    with Suc show ?thesis by simp
  next
    case Break
    with Suc.prems show ?thesis by (simp add: same_refl)
  next
    case (Raise x)
    with Suc.prems show ?thesis by (simp add: same_refl)
  qed
qed

lemma removeDirs_same:
  "guarded S t \<Longrightarrow> removeDirs cw dirs t = (e, rs, t') \<Longrightarrow> same S t t'"
proof (induction dirs arbitrary: t e rs t')
  case Nil
  then show ?case by (simp add: same_refl)
next
  case (Cons dir dirs)
  let ?parts = "split_on CHR ''/'' (replace_first ''./'' [] dir)"
  obtain e1 rs1 t1 where c: "removeChain cw ?parts (length ?parts) t = (e1, rs1, t1)"
    by (cases "removeChain cw ?parts (length ?parts) t") auto
  have k1: "same S t t1" using Cons.prems(1) c by (rule removeChain_same)
  show ?case
  proof (cases e1)
    case None
    have g1: "guarded S t1" using Cons.prems(1) k1 by (rule guarded_same)
    from None c Cons.prems(2) obtain rs2 where "removeDirs cw dirs t1 = (e, rs2, t')"
      by (auto simp: Let_def split: prod.splits)
    from Cons.IH [OF g1 this] k1 show ?thesis by (blast intro: same_trans)
  next
    case (Some err)
    with c Cons.prems(2) have "t' = t1" by (simp add: Let_def)
    with k1 show ?thesis by simp
  qed
qed

lemma replay_append:
  "replayRemovals cw t (rs @ rs') =
     (case replayRemovals cw t rs of None \<Rightarrow> None | Some t1 \<Rightarrow> replayRemovals cw t1 rs')"
  by (induction rs arbitrary: t) (auto split: sum.splits)

lemma removeChain_replay:
  "removeChain cw parts i t = (e, rs, t') \<Longrightarrow> replayRemovals cw t rs = Some t'"
proof (induction i arbitrary: t e rs t')
  case 0
  then show ?case by (auto split: step.splits dest!: chainStep_Removed)
next
  case (Suc j)
  then show ?case
    by (auto split: step.splits prod.splits dest!: chainStep_Removed)
qed

lemma removeDirs_replay:
  "removeDirs cw dirs t = (e, rs, t') \<Longrightarrow> replayRemovals cw t rs = Some t'"
proof (induction dirs arbitrary: t e rs t')
  case Nil
  then show ?case by simp
next
  case (Cons dir dirs)
  then show ?case
    by (auto simp: Let_def replay_append split: prod.splits option.splits dest!: removeChain_replay)
qed

lemma replay_only_deletes:
  "replayRemovals cw t rs = Some t' \<Longrightarrow> node_at t' k = node_at t k \<or> node_at t' k = None"
proof (induction rs arbitrary: t)
  case Nil
  then show ?case by simp
next
  case (Cons d ds)
  from Cons.prems obtain t1 where r: "rmdirSync cw t d = Inr t1" and rest: "replayRemovals cw t1 ds = Some t'"
    by (auto split: if_splits sum.splits)
  from r have "t1 = AList.delete (resolve cw d) t" by (auto dest: rmdirSync_Inr)
  then have "node_at t1 k = node_at t k \<or> node_at t1 k = None" by (simp add: node_at_delete)
  with Cons.IH [OF rest] show ?case by auto
qed

lemma removeChain_stops:
  assumes "join_with ''/'' (take i parts) \<noteq> []"
    and "readdirSync cw t (join_with ''/'' (take i parts)) = Inr (x # xs)"
  shows "removeChain cw parts i t = (None, [], t)"
proof -
  have "existsSync cw t (join_with ''/'' (take i parts))"
    using assms(2) by (rule readdirSync_existsSync)
  then have "chainStep cw t (join_with ''/'' (take i parts)) = Break"
    using assms by (simp add: chainStep_def)
  then show ?thesis by (cases i) simp_all
qed

lemma chain_0: "chain parts 0 = []"
  by (simp add: chain_def)

lemma chain_Suc:
  "chain parts (Suc j) =
     (if join_with ''/'' (take (Suc j) parts) = [] then chain parts j
      else join_with ''/'' (take (Suc j) parts) # chain parts j)"
  by (simp add: chain_def)

lemma removeChain_chain:
  "removeChain cw parts i t = (e, rs, t') \<Longrightarrow>
     prefix rs (chain parts i) \<and>
     (e = None \<and> rs \<noteq> chain parts i \<longrightarrow>
        \<not> (existsSync cw t' (chain parts i ! length rs) \<and>
           readdirSync cw t' (chain parts i ! length rs) = Inr []))"
proof (induction i arbitrary: t e rs t')
  case 0
  then show ?case by (simp add: chain_0 chainStep_def)
next
  case (Suc j)
  let ?d = "join_with ''/'' (take (Suc j) parts)"
  show ?case
  proof (cases "chainStep cw t ?d")
    case (Removed t1)
    then have d: "?d \<noteq> []" by (auto dest: chainStep_Removed)
    from Removed Suc.prems obtain rs1 where r1: "removeChain cw parts j t1 = (e, rs1, t')"
      and rs: "rs = ?d # rs1"
      by (auto split: prod.splits)
    from Suc.IH [OF r1] show ?thesis using d rs by (simp add: chain_Suc)
  next
    case Skip
    then have d: "?d = []" by (simp add: chainStep_Skip)
    from Skip Suc.prems have "removeChain cw parts j t = (e, rs, t')" by simp
    from Suc.IH [OF this] show ?thesis using d by (simp add: chain_Suc)
  next
    case Break
    with Suc.prems have "e = None" "rs = []" "t' = t" by simp_all
    with chainStep_Break [OF Break] show ?thesis by (simp add: chain_Suc)
  next
    case (Raise x)
    with Suc.prems show ?thesis by auto
  qed
qed

lemma removeDirs_single:
  "removeDirs cw [dir] t =
     removeChain cw (split_on CHR ''/'' (replace_first ''./'' [] dir))
       (length (split_on CHR ''/'' (replace_first ''./'' [] dir))) t"
  by (auto simp: Let_def split: prod.splits option.splits)

lemma removeDirs_append:
  "removeDirs cw (xs @ ys) t =
     (case removeDirs cw xs t of
        (Some e, rs, t') \<Rightarrow> (Some e, rs, t')
      | (None, rs, t') \<Rightarrow> (case removeDirs cw ys t' of (e, rs', t'') \<Rightarrow> (e, rs @ rs', t'')))"
  by (induction xs arbitrary: t) (auto simp: Let_def split: prod.splits option.splits)

lemma chainStep_Raise:
  "chainStep cw t d = Raise e \<Longrightarrow>
     d \<noteq> [] \<and> existsSync cw t d \<and>
     (readdirSync cw t d = Inl e \<or> readdirSync cw t d = Inr [] \<and> rmdirSync cw t d = Inl e)"
  by (auto simp: chainStep_def split: if_splits sum.splits)

lemma removeChain_raise:
  "removeChain cw parts i t = (Some err, rs, t') \<Longrightarrow>
     rs \<noteq> chain parts i \<and>
     existsSync cw t' (chain parts i ! length rs) \<and>
     (readdirSync cw t' (chain parts i ! length rs) = Inl err \<or>
      readdirSync cw t' (chain parts i ! length rs) = Inr [] \<and>
      rmdirSync cw t' (chain parts i ! length rs) = Inl err)"
proof (induction i arbitrary: t rs t')
  case 0
  then show ?case by (simp add: chainStep_def)
next
  case (Suc j)
  let ?d = "join_with ''/'' (take (Suc j) parts)"
  show ?case
  proof (cases "chainStep cw t ?d")
    case (Removed t1)
    then have d: "?d \<noteq> []" by (auto dest: chainStep_Removed)
    from Removed Suc.prems obtain rs1 where r1: "removeChain cw parts j t1 = (Some err, rs1, t')"
      and rs: "rs = ?d # rs1"
      by (auto split: prod.splits)
    from Suc.IH [OF r1] show ?thesis using d rs by (simp add: chain_Suc)
  next
    case Skip
    then have d: "?d = []" by (simp add: chainStep_Skip)
    from Skip Suc.prems have "removeChain cw parts j t = (Some err, rs, t')" by simp
    from Suc.IH [OF this] show ?thesis using d by (simp add: chain_Suc)
  next
    case Break
    with Suc.prems show ?thesis by simp
  next
    case (Raise x)
    with Suc.prems have "err = x" "rs = []" "t' = t" by simp_all
    with chainStep_Raise [OF Raise] show ?thesis by (simp add: chain_Suc)
  qed
qed

lemma indexOf_notin: "v \<notin> set s \<Longrightarrow> indexOf s v = - 1"
  by (induction s) (auto simp: Let_def)

lemma indexOf_in: "v \<in> set s \<Longrightarrow> 0 \<le> indexOf s v \<and> indexOf s v < int (length s)"
  by (induction s) (auto simp: Let_def)

lemma indexOf_snoc:
  "indexOf (s @ [x]) v =
     (if v \<in> set s then indexOf s v else if v = x then int (length s) else - 1)"
proof (induction s)
  case Nil
  then show ?case by simp
next
  case (Cons a s)
  have "0 \<le> indexOf s v" if "v \<in> set s" using indexOf_in that by blast
  then show ?case
    using Cons by (cases "v \<in> set s"; cases "a = v"; cases "v = x") (simp_all add: Let_def)
qed

lemma dedupFirst_snoc: "dedupFirst (s @ [x]) = dedupFirst s @ (if x \<in> set s then [] else [x])"
proof -
  have z: "zip (s @ [x]) [0 ..< length (s @ [x])] = zip s [0 ..< length s] @ [(x, length s)]"
    by simp
  have f: "filter (\<lambda>e. indexOf (s @ [x]) (fst e) = int (snd e)) (zip s [0 ..< length s])
         = filter (\<lambda>e. indexOf s (fst e) = int (snd e)) (zip s [0 ..< length s])"
    by (rule filter_cong) (auto simp: indexOf_snoc dest: set_zip_leftD)
  have l: "indexOf (s @ [x]) x = int (length s) \<longleftrightarrow> x \<notin> set s"
    using indexOf_in [of x s] by (auto simp: indexOf_snoc)
  show ?thesis
    unfolding dedupFirst_def z by (simp add: f l)
qed

lemma dedupFirst_first_occurrences: "dedupFirst s = rev (remdups (rev s))"
proof (induction s rule: rev_induct)
  case Nil
  then show ?case by (simp add: dedupFirst_def)
next
  case (snoc x s)
  then show ?case by (simp add: dedupFirst_snoc)
qed

text \<open>
  C3, as stated, fails: \<^verbatim>\<open>cleanupWrittenFiles\<close> raises to its caller. A write into a
  missing directory is fatal after its path was pushed on \<^verbatim>\<open>filesWritten\<close>; the rollback
  then throws on unlinking that path, and the directory \<open>inf\<close> made by the run stays.
\<close>

theorem cleanup_raises_counterexample:
  "cleanupWrittenFiles
     (run [Mkdir demoOpts ''inf'', ConfirmWriteFile demoOpts ''out/x.yaml'' ''kind: Service'' []] demoWorld)
   = (Threw ENOENT, [],
      demoWorld\<lparr>fs := demoFs @ [([''p'', ''inf''], Dir)],
                filesWritten := [''out/x.yaml''], dirsWritten := [''inf'']\<rparr>)"
  by code_simp

text \<open>
  C3, amended. \<^verbatim>\<open>cleanupWrittenFiles\<close> catches nothing: the first path of
  \<^verbatim>\<open>filesWritten\<close> whose unlink fails ends the rollback with that error, the earlier
  files removed, the later files and every directory untouched. When the paths of
  \<^verbatim>\<open>filesWritten\<close> name regular files, no file twice, none of them exists after the
  rollback.
\<close>

theorem cleanup_raises_first_unlink_error:
  "(filesWritten w = pre @ f # post \<and> unlinkAll (cwd w) pre (fs w) = (None, t1) \<and>
    unlinkSync (cwd w) t1 f = Inl e
      \<longrightarrow> cleanupWrittenFiles w = (Threw e, [], w\<lparr>fs := t1\<rparr>))
   \<and> (distinct (map (resolve (cwd w)) (filesWritten w)) \<and>
      (\<forall>g \<in> set (filesWritten w). isFileNode (node_at (fs w) (resolve (cwd w) g))) \<and>
      cleanupWrittenFiles w = (r, rs, w')
      \<longrightarrow> (\<forall>g \<in> set (filesWritten w). \<not> existsSync (cwd w) (fs w') g))"
proof (intro conjI impI)
  assume a: "filesWritten w = pre @ f # post \<and> unlinkAll (cwd w) pre (fs w) = (None, t1) \<and>
             unlinkSync (cwd w) t1 f = Inl e"
  then have "unlinkAll (cwd w) (filesWritten w) (fs w) = (Some e, t1)"
    by (simp add: unlinkAll_append)
  then show "cleanupWrittenFiles w = (Threw e, [], w\<lparr>fs := t1\<rparr>)"
    by (simp add: cleanupWrittenFiles_def)
next
  assume a: "distinct (map (resolve (cwd w)) (filesWritten w)) \<and>
      (\<forall>g \<in> set (filesWritten w). isFileNode (node_at (fs w) (resolve (cwd w) g))) \<and>
      cleanupWrittenFiles w = (r, rs, w')"
  then obtain t1 where u: "unlinkAll (cwd w) (filesWritten w) (fs w) = (None, t1)"
    and n1: "\<forall>k. node_at t1 k = (if k \<in> resolve (cwd w) ` set (filesWritten w) then None else node_at (fs w) k)"
    using unlinkAll_all_files [of "cwd w" "filesWritten w" "fs w"] by blast
  obtain e2 rs2 t2 where rd: "removeDirs (cwd w) (dedupFirst (dirsWritten w)) t1 = (e2, rs2, t2)"
    by (cases "removeDirs (cwd w) (dedupFirst (dirsWritten w)) t1") auto
  from a u rd have w': "fs w' = t2"
    by (auto simp: cleanupWrittenFiles_def split: option.splits)
  have only: "node_at t2 k = node_at t1 k \<or> node_at t2 k = None" for k
    using removeDirs_replay [OF rd] by (rule replay_only_deletes)
  show "\<forall>g \<in> set (filesWritten w). \<not> existsSync (cwd w) (fs w') g"
  proof
    fix g assume "g \<in> set (filesWritten w)"
    with n1 have "node_at t1 (resolve (cwd w) g) = None" by auto
    with only [of "resolve (cwd w) g"] have "node_at (fs w') (resolve (cwd w) g) = None"
      by (auto simp: w')
    then show "\<not> existsSync (cwd w) (fs w') g"
      by (simp add: existsSync_plain)
  qed
qed

theorem cleanup_raises_witness:
  "filesWritten (demoWorld\<lparr>filesWritten := [''gone.txt'', ''a.txt'']\<rparr>) = [] @ ''gone.txt'' # [''a.txt''] \<and>
   unlinkAll [''p''] [] demoFs = (None, demoFs) \<and>
   unlinkSync [''p''] demoFs ''gone.txt'' = Inl ENOENT \<and>
   cleanupWrittenFiles (demoWorld\<lparr>filesWritten := [''gone.txt'', ''a.txt'']\<rparr>)
     = (Threw ENOENT, [], demoWorld\<lparr>filesWritten := [''gone.txt'', ''a.txt'']\<rparr>) \<and>
   distinct (map (resolve [''p'']) [''a.txt'']) \<and>
   isFileNode (node_at demoFs (resolve [''p''] ''a.txt'')) \<and>
   cleanupWrittenFiles (demoWorld\<lparr>filesWritten := [''a.txt'']\<rparr>)
     = (Returned (), [], demoWorld\<lparr>filesWritten := [''a.txt''], fs := [([''p''], Dir)]\<rparr>) \<and>
   \<not> existsSync [''p''] [([''p''], Dir)] ''a.txt''"
proof -
  let ?w = "demoWorld\<lparr>filesWritten := [''gone.txt'', ''a.txt'']\<rparr>"
  let ?v = "demoWorld\<lparr>filesWritten := [''a.txt'']\<rparr>"
  have c: "cwd ?w = [''p'']" "fs ?w = demoFs" "cwd ?v = [''p'']" "fs ?v = demoFs"
    "filesWritten ?v = [''a.txt'']"
    by (simp_all add: demoWorld_def initial_def)
  have h1: "filesWritten ?w = [] @ ''gone.txt'' # [''a.txt'']" by simp
  have h2: "unlinkAll [''p''] [] demoFs = (None, demoFs)" by simp
  have h3: "unlinkSync [''p''] demoFs ''gone.txt'' = Inl ENOENT" by code_simp
  have h4: "distinct (map (resolve [''p'']) [''a.txt''])" by simp
  have h5: "isFileNode (node_at demoFs (resolve [''p''] ''a.txt''))" by code_simp
  have h6: "cleanupWrittenFiles ?v = (Returned (), [], ?v\<lparr>fs := [([''p''], Dir)]\<rparr>)" by code_simp
  from cleanup_raises_first_unlink_error
         [of ?w "[]" "''gone.txt''" "[''a.txt'']" demoFs ENOENT]
       h1 h2 h3 c
  have r1: "cleanupWrittenFiles ?w = (Threw ENOENT, [], ?w\<lparr>fs := demoFs\<rparr>)" by simp
  then have r1': "cleanupWrittenFiles ?w = (Threw ENOENT, [], ?w)" by (simp add: demoWorld_def initial_def)
  from cleanup_raises_first_unlink_error
         [of ?v _ _ _ _ _ "Returned ()" "[]" "?v\<lparr>fs := [([''p''], Dir)]\<rparr>"]
       h4 h5 h6 c
  have r2: "\<not> existsSync [''p''] [([''p''], Dir)] ''a.txt''" by simp
  show ?thesis using h1 h2 h3 h4 h5 h6 r1' r2 by simp
qed

text \<open>
  C9, as stated, fails in four ways. With the default \<^verbatim>\<open>options.directory\<close> \<open>''.''\<close> the
  recorded path is relative, \<open>inf\<close>, and the walk ends with it: the empty project
  directory stays. A recorded directory that is gone ends its walk at once: the empty
  directory above it stays. When the project directory was recorded as \<open>''.''\<close> and
  is empty, it is not removed: \<^verbatim>\<open>rmdirSync\<close> refuses the path and the rollback raises.
  And a directory recorded as \<open>../proj/inf\<close> is looked for at \<open>.proj/inf\<close>, since the
  first \<open>''./''\<close> of the recorded path is deleted: the empty directory that the run made
  stays.
\<close>

theorem chain_walk_counterexample:
  "cleanupWrittenFiles (run [Mkdir demoOpts ''inf''] (initial emptyProject [''home'', ''u'', ''proj'']))
     = (Returned (), [''inf''],
        (initial emptyProject [''home'', ''u'', ''proj''])\<lparr>dirsWritten := [''inf'']\<rparr>) \<and>
   readdirSync [''home'', ''u'', ''proj''] emptyProject ''.'' = Inr [] \<and>
   cleanupWrittenFiles ((initial emptyProject [])\<lparr>dirsWritten := [''/home/u/proj/inf'']\<rparr>)
     = (Returned (), [], (initial emptyProject [])\<lparr>dirsWritten := [''/home/u/proj/inf'']\<rparr>) \<and>
   readdirSync [] emptyProject ''/home/u/proj'' = Inr [] \<and>
   cleanupWrittenFiles (run [Mkdir demoOpts ''/inf''] (initial emptyProject [''home'', ''u'', ''proj'']))
     = (Threw EINVAL, [''inf''],
        (initial emptyProject [''home'', ''u'', ''proj''])\<lparr>dirsWritten := [''inf'', ''.'']\<rparr>) \<and>
   run [Mkdir besideOpts ''inf''] (initial besideFs [''home'', ''u'', ''work''])
     = (initial (besideFs @ [([''home'', ''u'', ''proj'', ''inf''], Dir)]) [''home'', ''u'', ''work''])
         \<lparr>dirsWritten := [''../proj/inf'']\<rparr> \<and>
   walk ''../proj/inf'' = [''.proj/inf'', ''.proj''] \<and>
   cleanupWrittenFiles (run [Mkdir besideOpts ''inf''] (initial besideFs [''home'', ''u'', ''work'']))
     = (Returned (), [],
        (initial (besideFs @ [([''home'', ''u'', ''proj'', ''inf''], Dir)]) [''home'', ''u'', ''work''])
          \<lparr>dirsWritten := [''../proj/inf'']\<rparr>)"
  by code_simp

text \<open>
  C9, amended. Phase 2 takes the recorded directories once each, in the order of their
  first recording. For a recorded directory \<open>dir\<close>, reached after the walks of the
  directories \<open>pre\<close> before it have ended without an error, the walk goes through the
  paths \<open>walk dir\<close>: the prefixes, the longest first and down to the first segment, of the
  recorded path with its first \<open>''./''\<close> deleted; they are absolute only when the recorded
  path is, and the project root plays no part. The walk removes the directories \<open>rs\<close>, a
  prefix of that list, each one a directory with no entry when it is removed, and ends in
  one of three ways. It ends without an error at the first path that does not exist or
  is not an empty directory, or at the end of the list; then phase 2 goes on with the
  next recorded directory. Or \<^verbatim>\<open>readdirSync\<close> or \<^verbatim>\<open>rmdirSync\<close> throws at a path that exists,
  and the rollback ends there with that error. So the rollback can remove directories
  that were never recorded: in the last part, the project directory and its parent.
\<close>

theorem chain_walk_stops_at_missing_or_nonempty:
  assumes ph1: "unlinkAll (cwd w) (filesWritten w) (fs w) = (None, t0)"
    and led: "dedupFirst (dirsWritten w) = pre @ dir # post"
    and before: "removeDirs (cwd w) pre t0 = (None, rs1, t1)"
    and cur: "removeDirs (cwd w) [dir] t1 = (e, rs, t2)"
  shows "dedupFirst (dirsWritten w) = rev (remdups (rev (dirsWritten w)))
     \<and> prefix rs (walk dir)
     \<and> replayRemovals (cwd w) t1 rs = Some t2
     \<and> (e = None \<and> rs \<noteq> walk dir \<longrightarrow>
          \<not> (existsSync (cwd w) t2 (walk dir ! length rs) \<and>
             readdirSync (cwd w) t2 (walk dir ! length rs) = Inr []))
     \<and> (e = None \<longrightarrow>
          (\<exists>e' rs' t3. removeDirs (cwd w) post t2 = (e', rs', t3) \<and>
             cleanupWrittenFiles w =
               (case e' of None \<Rightarrow> Returned () | Some x \<Rightarrow> Threw x, rs1 @ rs @ rs', w\<lparr>fs := t3\<rparr>)))
     \<and> (\<forall>err. e = Some err \<longrightarrow>
          rs \<noteq> walk dir \<and>
          existsSync (cwd w) t2 (walk dir ! length rs) \<and>
          (readdirSync (cwd w) t2 (walk dir ! length rs) = Inl err \<or>
           readdirSync (cwd w) t2 (walk dir ! length rs) = Inr [] \<and>
           rmdirSync (cwd w) t2 (walk dir ! length rs) = Inl err) \<and>
          cleanupWrittenFiles w = (Threw err, rs1 @ rs, w\<lparr>fs := t2\<rparr>))
     \<and> (\<exists>opts filePath t0 cw0 r rs0 w0.
          cleanupWrittenFiles (run [Mkdir opts filePath] (initial t0 cw0)) = (r, rs0, w0) \<and>
          directory opts \<notin> set (dirsWritten (run [Mkdir opts filePath] (initial t0 cw0))) \<and>
          path_join [directory opts, ''..''] \<notin> set (dirsWritten (run [Mkdir opts filePath] (initial t0 cw0))) \<and>
          readdirSync cw0 t0 (directory opts) = Inr [] \<and>
          existsSync cw0 t0 (path_join [directory opts, ''..'']) \<and>
          \<not> existsSync cw0 (fs w0) (directory opts) \<and>
          \<not> existsSync cw0 (fs w0) (path_join [directory opts, ''..'']))"
proof -
  let ?cw = "cwd w"
  let ?parts = "split_on CHR ''/'' (replace_first ''./'' [] dir)"
  from cur have c: "removeChain ?cw ?parts (length ?parts) t1 = (e, rs, t2)"
    by (simp only: removeDirs_single)
  have w: "walk dir = chain ?parts (length ?parts)" by (simp add: walk_def)
  have a: "dedupFirst (dirsWritten w) = rev (remdups (rev (dirsWritten w)))"
    by (rule dedupFirst_first_occurrences)
  have b: "prefix rs (walk dir)"
    using removeChain_chain [OF c] unfolding w by blast
  have r: "replayRemovals ?cw t1 rs = Some t2"
    using c by (rule removeChain_replay)
  have d: "e = None \<and> rs \<noteq> walk dir \<longrightarrow>
          \<not> (existsSync ?cw t2 (walk dir ! length rs) \<and>
             readdirSync ?cw t2 (walk dir ! length rs) = Inr [])"
    using removeChain_chain [OF c] unfolding w by blast
  have all: "removeDirs ?cw (dedupFirst (dirsWritten w)) t0 =
               (case e of
                  Some err \<Rightarrow> (Some err, rs1 @ rs, t2)
                | None \<Rightarrow> (case removeDirs ?cw post t2 of (e', rs', t3) \<Rightarrow> (e', rs1 @ rs @ rs', t3)))"
  proof -
    have "removeDirs ?cw (dir # post) t1 = removeDirs ?cw ([dir] @ post) t1" by simp
    also have "\<dots> = (case e of
                  Some err \<Rightarrow> (Some err, rs, t2)
                | None \<Rightarrow> (case removeDirs ?cw post t2 of (e', rs', t3) \<Rightarrow> (e', rs @ rs', t3)))"
      unfolding removeDirs_append using cur by (simp split: option.splits)
    finally have one: "removeDirs ?cw (dir # post) t1 = (case e of
                  Some err \<Rightarrow> (Some err, rs, t2)
                | None \<Rightarrow> (case removeDirs ?cw post t2 of (e', rs', t3) \<Rightarrow> (e', rs @ rs', t3)))" .
    show ?thesis
      unfolding led removeDirs_append using before one
      by (simp split: option.splits prod.splits)
  qed
  have f: "e = None \<longrightarrow>
          (\<exists>e' rs' t3. removeDirs ?cw post t2 = (e', rs', t3) \<and>
             cleanupWrittenFiles w =
               (case e' of None \<Rightarrow> Returned () | Some x \<Rightarrow> Threw x, rs1 @ rs @ rs', w\<lparr>fs := t3\<rparr>))"
  proof
    assume n: "e = None"
    obtain e' rs' t3 where p: "removeDirs ?cw post t2 = (e', rs', t3)"
      by (cases "removeDirs ?cw post t2") auto
    have "cleanupWrittenFiles w =
               (case e' of None \<Rightarrow> Returned () | Some x \<Rightarrow> Threw x, rs1 @ rs @ rs', w\<lparr>fs := t3\<rparr>)"
      using ph1 all n p by (simp add: cleanupWrittenFiles_def split: option.splits)
    with p show "\<exists>e' rs' t3. removeDirs ?cw post t2 = (e', rs', t3) \<and>
             cleanupWrittenFiles w =
               (case e' of None \<Rightarrow> Returned () | Some x \<Rightarrow> Threw x, rs1 @ rs @ rs', w\<lparr>fs := t3\<rparr>)"
      by blast
  qed
  have g: "\<forall>err. e = Some err \<longrightarrow>
          rs \<noteq> walk dir \<and>
          existsSync ?cw t2 (walk dir ! length rs) \<and>
          (readdirSync ?cw t2 (walk dir ! length rs) = Inl err \<or>
           readdirSync ?cw t2 (walk dir ! length rs) = Inr [] \<and>
           rmdirSync ?cw t2 (walk dir ! length rs) = Inl err) \<and>
          cleanupWrittenFiles w = (Threw err, rs1 @ rs, w\<lparr>fs := t2\<rparr>)"
  proof (intro allI impI)
    fix err assume s: "e = Some err"
    with c have c': "removeChain ?cw ?parts (length ?parts) t1 = (Some err, rs, t2)" by simp
    have "cleanupWrittenFiles w = (Threw err, rs1 @ rs, w\<lparr>fs := t2\<rparr>)"
      using ph1 all s by (simp add: cleanupWrittenFiles_def)
    with removeChain_raise [OF c']
    show "rs \<noteq> walk dir \<and>
          existsSync ?cw t2 (walk dir ! length rs) \<and>
          (readdirSync ?cw t2 (walk dir ! length rs) = Inl err \<or>
           readdirSync ?cw t2 (walk dir ! length rs) = Inr [] \<and>
           rmdirSync ?cw t2 (walk dir ! length rs) = Inl err) \<and>
          cleanupWrittenFiles w = (Threw err, rs1 @ rs, w\<lparr>fs := t2\<rparr>)"
      unfolding w by blast
  qed
  have "cleanupWrittenFiles (run [Mkdir rootedOpts ''inf''] (initial emptyProject [''home'', ''u'', ''proj'']))
          = (Returned (), [''/home/u/proj/inf'', ''/home/u/proj'', ''/home/u'', ''/home''],
             (initial [] [''home'', ''u'', ''proj''])\<lparr>dirsWritten := [''/home/u/proj/inf'']\<rparr>) \<and>
        directory rootedOpts \<notin> set (dirsWritten (run [Mkdir rootedOpts ''inf''] (initial emptyProject [''home'', ''u'', ''proj'']))) \<and>
        path_join [directory rootedOpts, ''..''] \<notin> set (dirsWritten (run [Mkdir rootedOpts ''inf''] (initial emptyProject [''home'', ''u'', ''proj'']))) \<and>
        readdirSync [''home'', ''u'', ''proj''] emptyProject (directory rootedOpts) = Inr [] \<and>
        existsSync [''home'', ''u'', ''proj''] emptyProject (path_join [directory rootedOpts, ''..'']) \<and>
        \<not> existsSync [''home'', ''u'', ''proj''] (fs ((initial [] [''home'', ''u'', ''proj''])\<lparr>dirsWritten := [''/home/u/proj/inf'']\<rparr>)) (directory rootedOpts) \<and>
        \<not> existsSync [''home'', ''u'', ''proj''] (fs ((initial [] [''home'', ''u'', ''proj''])\<lparr>dirsWritten := [''/home/u/proj/inf'']\<rparr>)) (path_join [directory rootedOpts, ''..''])"
    by code_simp
  then have h: "\<exists>opts filePath t0 cw0 r rs0 w0.
        cleanupWrittenFiles (run [Mkdir opts filePath] (initial t0 cw0)) = (r, rs0, w0) \<and>
        directory opts \<notin> set (dirsWritten (run [Mkdir opts filePath] (initial t0 cw0))) \<and>
        path_join [directory opts, ''..''] \<notin> set (dirsWritten (run [Mkdir opts filePath] (initial t0 cw0))) \<and>
        readdirSync cw0 t0 (directory opts) = Inr [] \<and>
        existsSync cw0 t0 (path_join [directory opts, ''..'']) \<and>
        \<not> existsSync cw0 (fs w0) (directory opts) \<and>
        \<not> existsSync cw0 (fs w0) (path_join [directory opts, ''..''])"
    by blast
  from a b r d f g h show ?thesis by (intro conjI)
qed

theorem chain_walk_witness:
  "unlinkAll (cwd (run ledgerCalls demoWorld)) (filesWritten (run ledgerCalls demoWorld))
       (fs (run ledgerCalls demoWorld))
     = (None, fs (run ledgerCalls demoWorld)) \<and>
   dirsWritten (run ledgerCalls demoWorld) = [''inf/gen'', ''inf'', ''out'', ''inf/k8s'', ''inf''] \<and>
   dedupFirst (dirsWritten (run ledgerCalls demoWorld)) = [''inf/gen''] @ ''inf'' # [''out'', ''inf/k8s''] \<and>
   removeDirs [''p''] [''inf/gen''] (fs (run ledgerCalls demoWorld))
     = (None, [''inf/gen''],
        demoFs @ [([''p'', ''inf''], Dir), ([''p'', ''out''], Dir), ([''p'', ''inf'', ''k8s''], Dir)]) \<and>
   removeDirs [''p''] [''inf'']
       (demoFs @ [([''p'', ''inf''], Dir), ([''p'', ''out''], Dir), ([''p'', ''inf'', ''k8s''], Dir)])
     = (None, [],
        demoFs @ [([''p'', ''inf''], Dir), ([''p'', ''out''], Dir), ([''p'', ''inf'', ''k8s''], Dir)]) \<and>
   walk ''inf'' = [''inf''] \<and>
   readdirSync [''p'']
       (demoFs @ [([''p'', ''inf''], Dir), ([''p'', ''out''], Dir), ([''p'', ''inf'', ''k8s''], Dir)]) ''inf''
     \<noteq> Inr [] \<and>
   removeDirs [''p''] [''out'', ''inf/k8s'']
       (demoFs @ [([''p'', ''inf''], Dir), ([''p'', ''out''], Dir), ([''p'', ''inf'', ''k8s''], Dir)])
     = (None, [''out'', ''inf/k8s'', ''inf''], demoFs) \<and>
   cleanupWrittenFiles (run ledgerCalls demoWorld)
     = (Returned (), [''inf/gen'', ''out'', ''inf/k8s'', ''inf''], (run ledgerCalls demoWorld)\<lparr>fs := demoFs\<rparr>)"
proof -
  let ?w = "run ledgerCalls demoWorld"
  let ?t1 = "demoFs @ [([''p'', ''inf''], Dir), ([''p'', ''out''], Dir), ([''p'', ''inf'', ''k8s''], Dir)]"
  have cw: "cwd ?w = [''p'']" by code_simp
  have h1: "unlinkAll (cwd ?w) (filesWritten ?w) (fs ?w) = (None, fs ?w)" by code_simp
  have dw: "dirsWritten ?w = [''inf/gen'', ''inf'', ''out'', ''inf/k8s'', ''inf'']" by code_simp
  have h2: "dedupFirst (dirsWritten ?w) = [''inf/gen''] @ ''inf'' # [''out'', ''inf/k8s'']" by code_simp
  have h3: "removeDirs (cwd ?w) [''inf/gen''] (fs ?w) = (None, [''inf/gen''], ?t1)" by code_simp
  have h4: "removeDirs (cwd ?w) [''inf''] ?t1 = (None, [], ?t1)" by code_simp
  have wk: "walk ''inf'' = [''inf'']" by code_simp
  have h5: "removeDirs [''p''] [''out'', ''inf/k8s''] ?t1 = (None, [''out'', ''inf/k8s'', ''inf''], demoFs)"
    by code_simp
  note inst = chain_walk_stops_at_missing_or_nonempty [OF h1 h2 h3 h4]
  from inst wk have stop: "\<not> (existsSync (cwd ?w) ?t1 ''inf'' \<and> readdirSync (cwd ?w) ?t1 ''inf'' = Inr [])"
    by simp
  have ex: "existsSync (cwd ?w) ?t1 ''inf''" by code_simp
  from stop ex have ne: "readdirSync [''p''] ?t1 ''inf'' \<noteq> Inr []" by (simp add: cw)
  from inst h5 have cl: "cleanupWrittenFiles ?w
      = (Returned (), [''inf/gen'', ''out'', ''inf/k8s'', ''inf''], ?w\<lparr>fs := demoFs\<rparr>)"
    by (simp add: cw)
  from h1 dw h2 h3 h4 wk ne h5 cl show ?thesis by (simp add: cw)
qed

section \<open>Runs and their rollback\<close>

lemma runInv_initial: "noLinks t0 \<Longrightarrow> runInv t0 cw (initial t0 cw)"
  by (simp add: runInv_def initial_def)

lemma runInv_prompts [simp]: "runInv t0 cw (w\<lparr>prompts := x\<rparr>) = runInv t0 cw w"
  by (simp add: runInv_def)

lemma runInv_diffs [simp]: "runInv t0 cw (w\<lparr>diffs := x\<rparr>) = runInv t0 cw w"
  by (simp add: runInv_def)

lemma runInv_push:
  assumes "runInv t0 cw w" and "\<not> existsSync (cwd w) (fs w) p"
  shows "runInv t0 cw (w\<lparr>filesWritten := filesWritten w @ [p]\<rparr>)"
proof -
  from assms(1) have "\<forall>q. node_at (fs w) (resolve cw p) \<noteq> Some (Link q)" and "cwd w = cw"
    by (simp_all add: runInv_def noLinks_def)
  with assms(2) have "node_at (fs w) (resolve cw p) = None" by (simp add: existsSync_plain)
  with assms(1) have "\<not> isFileNode (node_at t0 (resolve cw p))" by (auto simp: runInv_def)
  with assms(1) show ?thesis by (simp add: runInv_def)
qed

lemma runInv_write:
  assumes "runInv t0 cw w" and "writeFile (cwd w) (fs w) p c = Inr t"
  shows "runInv t0 cw (w\<lparr>fs := t\<rparr>)"
proof -
  from assms(2) obtain k where t: "t = AList.update k (File c) (fs w)" and nr: "k \<noteq> []"
    and nd: "node_at (fs w) k = None \<or> isFileNode (node_at (fs w) k)"
    by (auto dest: writeFile_Inr)
  from nd have nd': "node_at (fs w) k \<noteq> Some Dir" by auto
  show ?thesis
    using assms(1) nd' by (auto simp: runInv_def noLinks_def t node_at_update [OF nr])
qed

lemma finishWrite_inv:
  assumes "finishWrite opts p c b w = (r, w')" and "runInv t0 cw w"
  shows "runInv t0 cw w'"
proof (cases b)
  case False
  with assms show ?thesis by (simp add: finishWrite_def)
next
  case True
  let ?w1 = "if \<not> dontPrune opts \<and> \<not> existsSync (cwd w) (fs w) p
             then w\<lparr>filesWritten := filesWritten w @ [p]\<rparr> else w"
  have i1: "runInv t0 cw ?w1" using assms(2) by (simp add: runInv_push)
  show ?thesis
  proof (cases "writeFile (cwd ?w1) (fs ?w1) p c")
    case (Inl e)
    with True assms(1) have "w' = ?w1" by (simp add: finishWrite_def Let_def)
    with i1 show ?thesis by simp
  next
    case (Inr t)
    with True assms(1) have "w' = ?w1\<lparr>fs := t\<rparr>" by (simp add: finishWrite_def Let_def)
    with i1 Inr show ?thesis using runInv_write [of t0 cw ?w1 p c t] by simp
  qed
qed

lemma confirm_inv:
  "confirmWriteFile opts filePath content ans w = (r, ans', w') \<Longrightarrow> runInv t0 cw w \<Longrightarrow> runInv t0 cw w'"
proof (induction ans arbitrary: w r ans' w')
  case Nil
  then show ?case
    by (auto simp: confirmWriteFile.simps [of _ _ _ "[]"] Let_def
             split: if_splits sum.splits prod.splits dest: finishWrite_inv)
next
  case (Cons a rest)
  from Cons.prems show ?case
    by (auto simp: confirmWriteFile.simps [of _ _ _ "a # rest"] Let_def
             split: if_splits sum.splits prod.splits answer.splits outcome.splits
             dest: finishWrite_inv dest!: Cons.IH)
qed

lemma mkdir_inv:
  assumes "mkdir opts filePath w = (r, w')" and "runInv t0 cw w"
  shows "runInv t0 cw w'"
proof (cases "mkdirp (cwd w) (fs w) (path_join [directory opts, filePath])")
  case (Inl e)
  with assms show ?thesis by (simp add: mkdir_def)
next
  case (Inr res)
  obtain created t where res: "res = (created, t)" by (cases res)
  have nodes: "node_at t k = node_at (fs w) k \<or> (node_at (fs w) k = None \<and> node_at t k = Some Dir)" for k
    using Inr res mkdirp_Inr by blast
  have fsw': "fs w' = t" and cw': "cwd w' = cwd w" and fw: "filesWritten w' = filesWritten w"
    using assms(1) Inr res by (auto simp: mkdir_def Let_def split: if_splits)
  have "isFileNode (node_at t k)" if "isFileNode (node_at (fs w) k)" for k
    using nodes [of k] that by auto
  moreover have "node_at t k = Some Dir" if "node_at (fs w) k = Some Dir" for k
    using nodes [of k] that by auto
  moreover have "noLinks t" if "noLinks (fs w)"
    unfolding noLinks_def
  proof (intro allI)
    fix k p
    from that have "node_at (fs w) k \<noteq> Some (Link p)" by (simp add: noLinks_def)
    with nodes [of k] show "node_at t k \<noteq> Some (Link p)" by auto
  qed
  ultimately show ?thesis
    using assms(2) by (simp add: runInv_def fsw' cw' fw)
qed

lemma run_inv: "runInv t0 cw w \<Longrightarrow> runInv t0 cw (run calls w)"
proof (induction calls arbitrary: w)
  case Nil
  then show ?case by simp
next
  case (Cons c calls)
  show ?case
  proof (cases c)
    case (ConfirmWriteFile opts filePath content ans)
    obtain r rest w1 where s: "confirmWriteFile opts filePath content ans w = (r, rest, w1)"
      by (cases "confirmWriteFile opts filePath content ans w") auto
    then have "runInv t0 cw w1" using Cons.prems by (rule confirm_inv)
    then show ?thesis
      using ConfirmWriteFile s Cons.IH by (cases r) simp_all
  next
    case (Mkdir opts filePath)
    obtain r w1 where s: "mkdir opts filePath w = (r, w1)"
      by (cases "mkdir opts filePath w") auto
    then have "runInv t0 cw w1" using Cons.prems by (rule mkdir_inv)
    then show ?thesis
      using Mkdir s Cons.IH by (cases r) simp_all
  qed
qed

lemma holdsFile_mono:
  assumes "\<And>k. isFileNode (node_at t k) \<Longrightarrow> isFileNode (node_at t' k)"
    and "\<And>k. node_at t k = Some Dir \<Longrightarrow> node_at t' k = Some Dir"
  shows "holdsFile t d ns \<Longrightarrow> holdsFile t' d ns"
  by (induction ns arbitrary: d) (auto simp: assms split: if_splits)

lemma holdsFile_dir: "holdsFile t d ns \<Longrightarrow> node_at t d = Some Dir"
  by (cases ns) auto

lemma holdsFile_child:
  "holdsFile t d ns \<Longrightarrow> \<exists>n. d @ [n] \<in> waypoints t \<and> node_at t (d @ [n]) \<noteq> None"
proof (cases ns)
  case Nil
  then show "holdsFile t d ns \<Longrightarrow> ?thesis" by simp
next
  case (Cons n ms)
  assume h: "holdsFile t d ns"
  show ?thesis
  proof (cases "ms = []")
    case True
    with h Cons have "isFileNode (node_at t (d @ [n]))" by simp
    then show ?thesis by (auto simp: waypoints_def isFileNode_iff)
  next
    case False
    with h Cons have c: "holdsFile t (d @ [n]) ms" by simp
    then have "node_at t (d @ [n]) = Some Dir" by (rule holdsFile_dir)
    with c show ?thesis by (auto simp: waypoints_def)
  qed
qed

lemma guarded_waypoints: "guarded (waypoints t) t"
  unfolding guarded_def
proof
  fix k assume "k \<in> waypoints t"
  then consider "isFileNode (node_at t k)" | ns where "holdsFile t k ns"
    by (auto simp: waypoints_def)
  then show "isFileNode (node_at t k) \<or> (\<exists>n. k @ [n] \<in> waypoints t \<and> node_at t (k @ [n]) \<noteq> None)"
  proof cases
    case 1
    then show ?thesis by simp
  next
    case 2
    then show ?thesis by (auto dest: holdsFile_child)
  qed
qed

lemma holdsFile_same:
  "same (waypoints t) t t' \<Longrightarrow> holdsFile t d ns \<Longrightarrow> holdsFile t' d ns"
proof (induction ns arbitrary: d)
  case Nil
  then show ?case by simp
next
  case (Cons n ns)
  from Cons.prems(2) have "d \<in> waypoints t"
    by (auto simp: waypoints_def intro: exI [of _ "n # ns"])
  with Cons.prems(1) have d: "node_at t' d = node_at t d" by (simp add: same_def)
  show ?case
  proof (cases "ns = []")
    case True
    with Cons.prems(2) have f: "isFileNode (node_at t (d @ [n]))" by simp
    then have "d @ [n] \<in> waypoints t" by (simp add: waypoints_def)
    with Cons.prems(1) have "node_at t' (d @ [n]) = node_at t (d @ [n])" by (simp add: same_def)
    with Cons.prems(2) d f True show ?thesis by simp
  next
    case False
    with Cons.prems(2) have "holdsFile t (d @ [n]) ns" by simp
    from Cons.IH [OF Cons.prems(1) this] Cons.prems(2) d False show ?thesis by simp
  qed
qed

text \<open>
  On a file system without symbolic links the rollback is safe. Take any run from such
  a file system, and roll it back, whether or not the rollback raises. Every directory
  that held a file before the run, in itself or further down through directories, is
  still a directory and still holds that file. The directories removed are those of the
  list \<open>rs\<close>, one after the other, each with no entry at the moment it was removed. A
  walk that reaches a directory with an entry removes nothing from there on.
\<close>

lemma rollback_keeps_files_without_links:
  assumes nl: "noLinks t0"
    and cl: "cleanupWrittenFiles (run calls (initial t0 cw)) = (r, rs, w')"
  shows "(\<forall>d ns. holdsFile t0 d ns \<longrightarrow> holdsFile (fs w') d ns)
       \<and> (\<exists>e t1. unlinkAll cw (filesWritten (run calls (initial t0 cw))) (fs (run calls (initial t0 cw))) = (e, t1)
              \<and> replayRemovals cw t1 rs = Some (fs w'))
       \<and> (\<forall>dirParts i t x xs. join_with ''/'' (take i dirParts) \<noteq> [] \<and>
             readdirSync cw t (join_with ''/'' (take i dirParts)) = Inr (x # xs) \<longrightarrow>
             removeChain cw dirParts i t = (None, [], t))"
proof -
  let ?w = "run calls (initial t0 cw)"
  have inv: "runInv t0 cw ?w" by (rule run_inv [OF runInv_initial [OF nl]])
  then have cwd: "cwd ?w = cw" by (simp add: runInv_def)
  obtain e1 t1 where u: "unlinkAll cw (filesWritten ?w) (fs ?w) = (e1, t1)"
    by (cases "unlinkAll cw (filesWritten ?w) (fs ?w)") auto
  obtain e2 rs2 t2 where rd: "removeDirs cw (dedupFirst (dirsWritten ?w)) t1 = (e2, rs2, t2)"
    by (cases "removeDirs cw (dedupFirst (dirsWritten ?w)) t1") auto
  \<comment> \<open>the run and phase 1 keep the files and the directories of the initial file system\<close>
  have f1: "isFileNode (node_at t1 k)" if "isFileNode (node_at t0 k)" for k
  proof -
    from inv that have "k \<notin> resolve cw ` set (filesWritten ?w)" and "isFileNode (node_at (fs ?w) k)"
      by (auto simp: runInv_def)
    with unlinkAll_nodes [OF u, of k] show ?thesis by auto
  qed
  have d1: "node_at t1 k = Some Dir" if "node_at t0 k = Some Dir" for k
  proof -
    from inv that have "node_at (fs ?w) k = Some Dir" by (simp add: runInv_def)
    with unlinkAll_nodes [OF u, of k] show ?thesis by auto
  qed
  have h1: "holdsFile t1 d ns" if "holdsFile t0 d ns" for d ns
    using f1 d1 that by (rule holdsFile_mono)
  \<comment> \<open>phase 2 removes empty directories only\<close>
  have s2: "same (waypoints t1) t1 t2" using guarded_waypoints rd by (rule removeDirs_same)
  have rp: "replayRemovals cw t1 rs2 = Some t2" using rd by (rule removeDirs_replay)
  have final: "(fs w' = t1 \<and> rs = []) \<or> (fs w' = t2 \<and> rs = rs2)"
    using cl u rd by (auto simp: cleanupWrittenFiles_def cwd split: option.splits)
  have keep: "same (waypoints t1) t1 (fs w')" using final s2 by (auto simp: same_refl)
  have part1: "holdsFile (fs w') d ns" if "holdsFile t0 d ns" for d ns
    using keep h1 [OF that] by (rule holdsFile_same)
  have part2: "\<exists>e t1. unlinkAll cw (filesWritten ?w) (fs ?w) = (e, t1) \<and> replayRemovals cw t1 rs = Some (fs w')"
    using u rp final by auto
  have part3: "removeChain cw dirParts i t = (None, [], t)"
    if "join_with ''/'' (take i dirParts) \<noteq> []"
      and "readdirSync cw t (join_with ''/'' (take i dirParts)) = Inr (x # xs)" for dirParts i t x xs
    using that by (rule removeChain_stops)
  show ?thesis using part1 part2 part3 by blast
qed

lemma noLinks_nestedFs: "noLinks nestedFs"
  by (simp add: noLinks_def node_at_def nestedFs_def)

lemma rollback_keeps_files_example:
  "cleanupWrittenFiles (run nestedCalls (initial nestedFs [''p'']))
     = (Returned (), [''inf/gen''],
        \<lparr>fs = [([''p''], Dir), ([''p'', ''a.txt''], File ''new''), ([''p'', ''inf''], Dir),
               ([''p'', ''inf'', ''keep''], Dir), ([''p'', ''inf'', ''keep'', ''mine.yaml''], File ''user'')],
         cwd = [''p''], filesWritten = [''inf/gen/x.yaml''], dirsWritten = [''inf/gen'', ''inf''],
         prompts = [''a.txt''], diffs = [], stdout = [], reads = []\<rparr>) \<and>
   holdsFile nestedFs [''p''] [''inf'', ''keep'', ''mine.yaml''] \<and>
   holdsFile [([''p''], Dir), ([''p'', ''a.txt''], File ''new''), ([''p'', ''inf''], Dir),
              ([''p'', ''inf'', ''keep''], Dir), ([''p'', ''inf'', ''keep'', ''mine.yaml''], File ''user'')]
             [''p''] [''inf'', ''keep'', ''mine.yaml'']"
proof -
  let ?t = "[([''p''], Dir), ([''p'', ''a.txt''], File ''new''), ([''p'', ''inf''], Dir),
               ([''p'', ''inf'', ''keep''], Dir), ([''p'', ''inf'', ''keep'', ''mine.yaml''], File ''user'')]"
  let ?w' = "\<lparr>fs = ?t,
         cwd = [''p''], filesWritten = [''inf/gen/x.yaml''], dirsWritten = [''inf/gen'', ''inf''],
         prompts = [''a.txt''], diffs = [], stdout = [], reads = []\<rparr>"
  have h: "cleanupWrittenFiles (run nestedCalls (initial nestedFs [''p''])) = (Returned (), [''inf/gen''], ?w')"
    by code_simp
  have a: "holdsFile nestedFs [''p''] [''inf'', ''keep'', ''mine.yaml'']"
    by code_simp
  from rollback_keeps_files_without_links [OF noLinks_nestedFs h] a
  have k: "holdsFile (fs ?w') [''p''] [''inf'', ''keep'', ''mine.yaml'']" by blast
  from h a k show ?thesis by simp
qed

text \<open>
  C1 does not hold of the code: the rollback removes a directory that held an entry of
  the user before the run. \<^verbatim>\<open>confirmWriteFile\<close> asks \<^verbatim>\<open>fs.existsSync\<close> whether the path
  exists, and that follows symbolic links, so a link of the user whose target is missing
  counts as absent: the path is pushed on \<^verbatim>\<open>filesWritten\<close> and the content is written to
  the target. \<^verbatim>\<open>cleanupWrittenFiles\<close> then unlinks the path, which removes the link
  itself, and the walk finds the user's directory empty and removes it. In the run
  below, in the project \<open>/p\<close>, the directory \<open>inf\<close> holds the link \<open>x.yaml\<close> to the missing
  file \<open>../out.yaml\<close>; the run makes \<open>inf/gen\<close> and writes \<open>inf/x.yaml\<close>. After the rollback
  neither the link nor the directory \<open>inf\<close> is left, and the file written through the link
  stays. This is against the comment in \<^verbatim>\<open>confirmWriteFile\<close> (never delete a user's files)
  and the comment above \<^verbatim>\<open>cleanupWrittenFiles\<close>.
\<close>

theorem rollback_removes_linked_directory:
  "node_at linkedFs [''p'', ''inf''] = Some Dir \<and>
   node_at linkedFs [''p'', ''inf'', ''x.yaml''] = Some (Link ''../out.yaml'') \<and>
   readdirSync [''p''] linkedFs ''inf'' = Inr [''x.yaml''] \<and>
   existsSync [''p''] linkedFs ''inf/x.yaml'' = False \<and>
   run linkedCalls (initial linkedFs [''p''])
     = (initial (linkedFs @ [([''p'', ''inf'', ''gen''], Dir),
                             ([''p'', ''out.yaml''], File ''kind: Service'')]) [''p''])
         \<lparr>filesWritten := [''inf/x.yaml''], dirsWritten := [''inf/gen'', ''inf'']\<rparr> \<and>
   cleanupWrittenFiles (run linkedCalls (initial linkedFs [''p'']))
     = (Returned (), [''inf/gen'', ''inf''],
        (initial [([''p''], Dir), ([''p'', ''out.yaml''], File ''kind: Service'')] [''p''])
          \<lparr>filesWritten := [''inf/x.yaml''], dirsWritten := [''inf/gen'', ''inf'']\<rparr>) \<and>
   node_at [([''p''], Dir), ([''p'', ''out.yaml''], File ''kind: Service'')] [''p'', ''inf''] = None \<and>
   node_at [([''p''], Dir), ([''p'', ''out.yaml''], File ''kind: Service'')] [''p'', ''inf'', ''x.yaml''] = None"
  by code_simp

section \<open>The template-based reconciler\<close>

lemma logLine_silence: "silence env \<Longrightarrow> logLine env msg w = w"
  by (simp add: logLine_def)

lemma loadTemplate_world:
  "loadTemplate env a w = (r, w1) \<Longrightarrow>
     w1 = w\<lparr>reads := reads w @ (if truthy (argTemplatePath a)
                                 then [path_join [dirname env, the (argTemplatePath a)]] else [])\<rparr>"
  by (auto simp: loadTemplate_def truthy_def Let_def split: option.splits if_splits sum.splits)

lemma loadTemplate_indep:
  "loadTemplate (env\<lparr>optOutput := out, optOverwrite := b\<rparr>) (a\<lparr>argOutput := x\<rparr>) w = loadTemplate env a w"
  by (auto simp: loadTemplate_def Let_def split: option.splits sum.splits)

text \<open>
  C8, as stated, fails: with both a content and a template path, the template file is
  read before the error is thrown; and when that read fails, its error is the one
  thrown.
\<close>

theorem both_sources_counterexample:
  "dnaConfirmWriteFile stubEnv ''Dockerfile'' (fileArgs\<lparr>argTemplatePath := Some ''Dockerfile''\<rparr>) []
       (initial installFs [''p''])
     = (Threw (JsError ''Provide only one of content, templatePath''), [],
        (initial installFs [''p''])\<lparr>reads := [''/opt/dna/Dockerfile'']\<rparr>) \<and>
   dnaConfirmWriteFile stubEnv ''Dockerfile'' (fileArgs\<lparr>argTemplatePath := Some ''missing''\<rparr>) []
       (initial installFs [''p''])
     = (Threw ENOENT, [], (initial installFs [''p''])\<lparr>reads := [''/opt/dna/missing'']\<rparr>)"
  by code_simp

text \<open>
  C8, amended. With a non-empty content and a non-empty template path the call throws,
  and the only thing it has done by then is to read the template file: the target path
  is neither read nor written, nothing is asked, printed or recorded. The error is
  \<^verbatim>\<open>Provide only one of content, templatePath\<close> unless loading the template failed first.
\<close>

theorem both_sources_throw_after_template_read:
  assumes "argContent a = Some c" and "c \<noteq> []"
    and "argTemplatePath a = Some tp" and "tp \<noteq> []"
  shows "\<exists>e. dnaConfirmWriteFile env filePath a ans w =
               (Threw e, ans, w\<lparr>reads := reads w @ [path_join [dirname env, tp]]\<rparr>) \<and>
             (e = JsError ''Provide only one of content, templatePath'' \<or>
              fst (loadTemplate env a w) = Inl e)"
proof -
  obtain r w1 where l: "loadTemplate env a w = (r, w1)" by (cases "loadTemplate env a w") auto
  then have w1: "w1 = w\<lparr>reads := reads w @ [path_join [dirname env, tp]]\<rparr>"
    using assms by (auto dest: loadTemplate_world simp: truthy_def)
  show ?thesis
    using l assms w1
    by (cases r) (auto simp: dnaConfirmWriteFile.simps [of env filePath a ans w] truthy_def)
qed

theorem both_sources_witness:
  "argContent (fileArgs\<lparr>argTemplatePath := Some ''Dockerfile''\<rparr>) = Some ''FROM node'' \<and>
   ''FROM node'' \<noteq> [] \<and>
   argTemplatePath (fileArgs\<lparr>argTemplatePath := Some ''Dockerfile''\<rparr>) = Some ''Dockerfile'' \<and>
   ''Dockerfile'' \<noteq> [] \<and>
   (\<exists>e. dnaConfirmWriteFile stubEnv ''Dockerfile'' (fileArgs\<lparr>argTemplatePath := Some ''Dockerfile''\<rparr>)
            [Yes] (initial installFs [''p''])
          = (Threw e, [Yes],
             (initial installFs [''p''])\<lparr>reads := reads (initial installFs [''p'']) @
                                                  [path_join [dirname stubEnv, ''Dockerfile'']]\<rparr>))"
proof -
  let ?a = "fileArgs\<lparr>argTemplatePath := Some ''Dockerfile''\<rparr>"
  have h1: "argContent ?a = Some ''FROM node''" by (simp add: fileArgs_def)
  have h2: "''FROM node'' \<noteq> []" by simp
  have h3: "argTemplatePath ?a = Some ''Dockerfile''" by simp
  have h4: "''Dockerfile'' \<noteq> []" by simp
  from both_sources_throw_after_template_read [OF h1 h2 h3 h4, of stubEnv "''Dockerfile''" "[Yes]" "initial installFs [''p'']"]
  show ?thesis using h1 h2 h3 h4 by blast
qed

text \<open>
  The older variant makes no such check: given both a content and a file to copy, its
  last block writes the content and returns \<^verbatim>\<open>true\<close>.
\<close>

lemma older_variant_accepts_both_sources:
  assumes "oldContent a = Some c" and "c \<noteq> []" and "oldCopySource a = Some src" and "src \<noteq> []"
    and "writeFile (cwd w) (fs w) (cwdString w @ ''/'' @ oldPath a) c = Inr t"
  shows "\<exists>w'. olderFinish env a True w = (Returned JTrue, w') \<and> fs w' = t"
  using assms by (simp add: olderFinish_def truthy_def Let_def started_def logLine_def)

text \<open>
  C7, as stated, fails: the chunk written to standard output is the content and one more
  newline, not the bytes that a write to disk stores. The first call is the dry run of
  a file with literal content; the second is the same artifact under the overwrite
  policy of a run that writes to disk.
\<close>

theorem dry_run_counterexample:
  "dnaConfirmWriteFile (stubEnv\<lparr>optOutput := Some ''-''\<rparr>) ''Dockerfile'' (fileArgs\<lparr>argOutput := Some ''-''\<rparr>) []
       (initial installFs [''p''])
     = (Returned JTrue, [],
        (initial installFs [''p''])\<lparr>reads := [''/p/Dockerfile''], stdout := [''FROM node'' @ newline]\<rparr>) \<and>
   (\<exists>w'. dnaConfirmWriteFile (stubEnv\<lparr>optOverwrite := True\<rparr>) ''Dockerfile'' fileArgs []
            (initial installFs [''p''])
          = (Returned JTrue, [], w') \<and>
        fs w' = installFs @ [([''p'', ''Dockerfile''], File ''FROM node'')]) \<and>
   ''FROM node'' @ newline \<noteq> ''FROM node''"
proof -
  have "dnaConfirmWriteFile (stubEnv\<lparr>optOverwrite := True\<rparr>) ''Dockerfile'' fileArgs []
            (initial installFs [''p''])
          = (Returned JTrue, [],
             (initial (installFs @ [([''p'', ''Dockerfile''], File ''FROM node'')]) [''p''])
               \<lparr>reads := [''/p/Dockerfile''],
                 stdout := [''Successfully wrote '' @ [CHR 0x22] @ ''Dockerfile'' @ [CHR 0x22] @ newline]\<rparr>)"
    by code_simp
  then have "\<exists>w'. dnaConfirmWriteFile (stubEnv\<lparr>optOverwrite := True\<rparr>) ''Dockerfile'' fileArgs []
            (initial installFs [''p''])
          = (Returned JTrue, [], w') \<and>
        fs w' = installFs @ [([''p'', ''Dockerfile''], File ''FROM node'')]"
    by (simp add: initial_def)
  moreover have "dnaConfirmWriteFile (stubEnv\<lparr>optOutput := Some ''-''\<rparr>) ''Dockerfile'' (fileArgs\<lparr>argOutput := Some ''-''\<rparr>) []
       (initial installFs [''p''])
     = (Returned JTrue, [],
        (initial installFs [''p''])\<lparr>reads := [''/p/Dockerfile''], stdout := [''FROM node'' @ newline]\<rparr>)"
    by code_simp
  moreover have "''FROM node'' @ newline \<noteq> ''FROM node''" by (simp add: newline_def)
  ultimately show ?thesis by blast
qed

text \<open>
  C7, amended. Let the output argument of the call and the output option of the run both
  be \<open>''-''\<close>, let not both sources be given, and let the content, literal or loaded
  from the template, be non-empty. Then the call returns \<^verbatim>\<open>true\<close> without asking, changes
  neither the file system nor the two arrays, and writes to standard output exactly the
  content followed by a newline. The content is what the overwrite policy stores at the
  path for the same artifact, in a run whose output option is not set and whose write
  succeeds: the bytes on standard output are the bytes on disk and one newline.
\<close>

theorem dry_run_emits_content_and_newline:
  assumes dry: "argOutput a = Some ''-''" and sil: "optOutput env = Some ''-''"
    and one: "\<not> (truthy (argContent a) \<and> truthy (argTemplatePath a))"
    and tmpl: "loadTemplate env a w = (Inr template, w1)"
    and des: "orElse (argContent a) template = Some c" and ne: "c \<noteq> []"
  shows "dnaConfirmWriteFile env filePath a ans w =
           (Returned JTrue, ans,
            w\<lparr>reads := reads w1 @ [path_join [cwdString w, filePath]],
              stdout := stdout w @ [c @ newline]\<rparr>)
         \<and> (\<forall>t. writeFile (cwd w) (fs w) (path_join [cwdString w, filePath]) c = Inr t \<longrightarrow>
               (\<exists>w'. dnaConfirmWriteFile (env\<lparr>optOutput := None, optOverwrite := True\<rparr>) filePath
                          (a\<lparr>argOutput := None\<rparr>) ans w
                        = (Returned JTrue, ans, w') \<and>
                     fs w' = t \<and>
                     readFile (cwd w') (fs w') (path_join [cwdString w, filePath]) = Inr c))"
proof (intro conjI allI impI)
  have s: "silence env" using sil by (simp add: silence_def)
  have w1: "w1 = w\<lparr>reads := reads w @ (if truthy (argTemplatePath a)
                                 then [path_join [dirname env, the (argTemplatePath a)]] else [])\<rparr>"
    using tmpl by (rule loadTemplate_world)
  have fin: "dnaFinish env filePath p a template b v
               = (Returned JTrue, v\<lparr>stdout := stdout v @ [c @ newline]\<rparr>)" for p b v
    using dry des ne s by (simp add: dnaFinish_def Let_def logLine_silence)
  show "dnaConfirmWriteFile env filePath a ans w =
           (Returned JTrue, ans,
            w\<lparr>reads := reads w1 @ [path_join [cwdString w, filePath]],
              stdout := stdout w @ [c @ newline]\<rparr>)"
    using dry one tmpl s
    by (simp add: dnaConfirmWriteFile.simps [of env filePath a ans w] Let_def fin logLine_silence w1)
next
  fix t assume wr: "writeFile (cwd w) (fs w) (path_join [cwdString w, filePath]) c = Inr t"
  let ?env = "env\<lparr>optOutput := None, optOverwrite := True\<rparr>" and ?a = "a\<lparr>argOutput := None\<rparr>"
  let ?p = "path_join [cwdString w, filePath]"
  have w1: "w1 = w\<lparr>reads := reads w @ (if truthy (argTemplatePath a)
                                 then [path_join [dirname env, the (argTemplatePath a)]] else [])\<rparr>"
    using tmpl by (rule loadTemplate_world)
  have l: "loadTemplate ?env ?a w = (Inr template, w1)"
    using tmpl by (simp add: loadTemplate_indep)
  let ?msg = "''Successfully '' @ (if truthy (argContent a) then ''wrote'' else ''wrote from template'')
                 @ '' '' @ [CHR 0x22] @ filePath @ [CHR 0x22]"
  let ?w2 = "w1\<lparr>reads := reads w1 @ [?p]\<rparr>"
  have wr2: "writeFile (cwd ?w2) (fs ?w2) ?p c = Inr t" using wr by (simp add: w1)
  have "dnaConfirmWriteFile ?env filePath ?a ans w = (Returned JTrue, ans, logLine ?env ?msg (?w2\<lparr>fs := t\<rparr>))"
    using one l des ne wr2
    by (simp add: dnaConfirmWriteFile.simps [of ?env filePath ?a ans w] Let_def dnaFinish_def)
  moreover have "fs (logLine ?env ?msg (?w2\<lparr>fs := t\<rparr>)) = t" "cwd (logLine ?env ?msg (?w2\<lparr>fs := t\<rparr>)) = cwd w"
    by (simp_all add: logLine_def w1)
  moreover have "readFile (cwd w) t ?p = Inr c" using wr by (rule readFile_after_write)
  ultimately show "\<exists>w'. dnaConfirmWriteFile ?env filePath ?a ans w = (Returned JTrue, ans, w') \<and>
                     fs w' = t \<and> readFile (cwd w') (fs w') ?p = Inr c"
    by simp
qed

theorem dry_run_witness:
  "argOutput yamlArgs = Some ''-'' \<and>
   optOutput (stubEnv\<lparr>optOutput := Some ''-''\<rparr>) = Some ''-'' \<and>
   \<not> (truthy (argContent yamlArgs) \<and> truthy (argTemplatePath yamlArgs)) \<and>
   loadTemplate (stubEnv\<lparr>optOutput := Some ''-''\<rparr>) yamlArgs (initial installFs [''p''])
     = (Inr (Some (''kind: Service'' @ newline)),
        (initial installFs [''p''])\<lparr>reads := [''/opt/dna/svc.yaml'']\<rparr>) \<and>
   orElse (argContent yamlArgs) (Some (''kind: Service'' @ newline)) = Some (''kind: Service'' @ newline) \<and>
   ''kind: Service'' @ newline \<noteq> [] \<and>
   dnaConfirmWriteFile (stubEnv\<lparr>optOutput := Some ''-''\<rparr>) ''inf/svc.yaml'' yamlArgs [] (initial installFs [''p''])
     = (Returned JTrue, [],
        (initial installFs [''p''])
          \<lparr>reads := [''/opt/dna/svc.yaml'', ''/p/inf/svc.yaml''],
            stdout := [(''kind: Service'' @ newline) @ newline]\<rparr>)"
proof -
  let ?env = "stubEnv\<lparr>optOutput := Some ''-''\<rparr>"
  let ?w = "initial installFs [''p'']"
  let ?c = "''kind: Service'' @ newline"
  have h1: "argOutput yamlArgs = Some ''-''" by (simp add: yamlArgs_def)
  have h2: "optOutput ?env = Some ''-''" by simp
  have h3: "\<not> (truthy (argContent yamlArgs) \<and> truthy (argTemplatePath yamlArgs))"
    by (simp add: yamlArgs_def truthy_def)
  have h4: "loadTemplate ?env yamlArgs ?w = (Inr (Some ?c), ?w\<lparr>reads := [''/opt/dna/svc.yaml'']\<rparr>)"
    by code_simp
  have h5: "orElse (argContent yamlArgs) (Some ?c) = Some ?c"
    by (simp add: yamlArgs_def orElse_def truthy_def)
  have h6: "?c \<noteq> []" by simp
  have p: "path_join [cwdString ?w, ''inf/svc.yaml''] = ''/p/inf/svc.yaml''" by code_simp
  have s: "stdout ?w = []" by (simp add: initial_def)
  from dry_run_emits_content_and_newline [OF h1 h2 h3 h4 h5 h6, of "''inf/svc.yaml''" "[]"]
  have "dnaConfirmWriteFile ?env ''inf/svc.yaml'' yamlArgs [] ?w
          = (Returned JTrue, [],
             ?w\<lparr>reads := reads (?w\<lparr>reads := [''/opt/dna/svc.yaml'']\<rparr>) @
                           [path_join [cwdString ?w, ''inf/svc.yaml'']],
                stdout := stdout ?w @ [?c @ newline]\<rparr>)"
    by blast
  then have "dnaConfirmWriteFile ?env ''inf/svc.yaml'' yamlArgs [] ?w
          = (Returned JTrue, [],
             ?w\<lparr>reads := [''/opt/dna/svc.yaml'', ''/p/inf/svc.yaml''], stdout := [?c @ newline]\<rparr>)"
    by (simp add: p s)
  with h1 h2 h3 h4 h5 h6 show ?thesis by simp
qed

section \<open>The merge of a template with its properties\<close>










end
